theory Spec2Isabelle
  imports Complex_Main
begin

section \<open>Data model\<close>

text \<open>
  The repository holds two variants of one game. \<^verbatim>\<open>src/App.tsx\<close> (types in
  \<^verbatim>\<open>src/types.ts\<close>) nests the turn phases under \<^verbatim>\<open>PLAYING\<close> and knows word banks;
  \<^verbatim>\<open>src/unnamed/part_000\<close> (types in \<^verbatim>\<open>src/unnamed/part_001\<close>) is the flat variant
  that starts in \<^verbatim>\<open>LOBBY\<close>. Names of the flat variant carry the suffix \<open>_L\<close>.
  JavaScript numbers that only ever hold integers (scores, timer, rounds) are \<open>int\<close>.
  Strings are lists of characters, one per UTF-16 code unit of the source string.
\<close>

datatype error = TypeError

text \<open>\<^verbatim>\<open>Player\<close>, the same interface in both variants.\<close>

record Player =
  id_of :: string
  name :: string
  score :: int

text \<open>\<^verbatim>\<open>difficulty\<close> of \<^verbatim>\<open>src/types.ts\<close> and of \<^verbatim>\<open>part_001\<close>.\<close>

datatype difficulty = easy | medium | hard | custom

datatype difficulty_L = easy_L | medium_L | hard_L

record 'd Prompt =
  word :: string
  category :: string
  difficulty :: 'd

text \<open>The element type of \<^verbatim>\<open>GameState.history\<close>.\<close>

record HistoryEntry =
  playerName :: string
  word_h :: string
  wasCorrect :: bool
  winners :: "string list"

datatype GamePhase = HOME | PLAYING | GAME_OVER

datatype PlayingSubPhase =
  GETTING_PROMPTS | PRE_TURN | CHOOSE_PROMPT | DRAWING | CONFIRM_SCORE | POST_TURN
  | ROUND_LEADERBOARD

datatype GamePhase_L =
  LOBBY | GETTING_PROMPTS_L | PRE_TURN_L | CHOOSE_PROMPT_L | DRAWING_L | CONFIRM_SCORE_L
  | POST_TURN_L | ROUND_LEADERBOARD_L | GAME_OVER_L

datatype wordSource_t = ai | custom_bank

text \<open>
  \<^verbatim>\<open>currentPlayerIndex\<close> is a JavaScript number. The code only stores \<open>0\<close> and
  \<^verbatim>\<open>(i + 1) % players.length\<close> in it, which is \<^verbatim>\<open>NaN\<close> for an empty roster.
\<close>

datatype js_index = Idx nat | NaN

text \<open>
  An entry of \<^verbatim>\<open>promptChoices\<close> is \<^verbatim>\<open>undefined\<close> (\<open>None\<close>) when it was read
  out of range of an array; \<^verbatim>\<open>currentPrompt\<close> is \<^verbatim>\<open>null\<close> before a choice.
\<close>

record GameState =
  phase :: GamePhase
  subPhase :: "PlayingSubPhase option"
  players :: "Player list"
  currentPlayerIndex :: js_index
  currentPrompt :: "difficulty Prompt option"
  promptChoices :: "difficulty Prompt option list"
  timer :: int
  rounds :: int
  maxRounds :: int
  wordSource :: wordSource_t
  history :: "HistoryEntry list"

record GameState_L =
  players_L :: "Player list"
  currentPlayerIndex_L :: js_index
  currentPrompt_L :: "difficulty_L Prompt option"
  promptChoices_L :: "difficulty_L Prompt option list"
  phase_L :: GamePhase_L
  timer_L :: int
  rounds_L :: int
  maxRounds_L :: int
  history_L :: "HistoryEntry list"

record WordSet =
  id_ws :: string
  name_ws :: string
  easy_ws :: "string list"
  medium_ws :: "string list"
  hard_ws :: "string list"

text \<open>
  The React state of the component \<^verbatim>\<open>App\<close> of \<^verbatim>\<open>src/App.tsx\<close>: one field per
  \<^verbatim>\<open>useState\<close> hook the game logic reads or writes.
\<close>

record App =
  gameState :: GameState
  allPrompts :: "difficulty Prompt list"
  selectedGuesserIds :: "string set"
  isSettingsOpen :: bool
  wordSets :: "WordSet list"
  selectedSetId :: string

record App_L =
  gameState_L :: GameState_L
  allPrompts_L :: "difficulty_L Prompt list"
  selectedGuesserIds_L :: "string set"

definition DEFAULT_TIME :: int where
  "DEFAULT_TIME = 60"

definition MAX_ROUNDS :: int where
  "MAX_ROUNDS = 5"

definition SPEED_BONUS_THRESHOLD :: int where
  "SPEED_BONUS_THRESHOLD = 30"

text \<open>\<^verbatim>\<open>arr[i]\<close>: \<^verbatim>\<open>undefined\<close> out of range and at \<^verbatim>\<open>NaN\<close>.\<close>

definition at_index :: "'a list \<Rightarrow> js_index \<Rightarrow> 'a option" where
  "at_index arr i = (case i of Idx n \<Rightarrow> (if n < length arr then Some (arr ! n) else None)
                       | NaN \<Rightarrow> None)"

text \<open>\<^verbatim>\<open>prev.currentPrompt?.word || ''\<close>.\<close>

definition prompt_word :: "'d Prompt option \<Rightarrow> string" where
  "prompt_word cp = (case cp of None \<Rightarrow> [] | Some p \<Rightarrow> word p)"

section \<open>Scoring\<close>

text \<open>\<^verbatim>\<open>diffMap\<close> in \<^verbatim>\<open>submitScore\<close> of \<^verbatim>\<open>src/App.tsx\<close>.\<close>

fun diffMap :: "difficulty \<Rightarrow> int" where
  "diffMap easy = 1"
| "diffMap medium = 2"
| "diffMap hard = 3"
| "diffMap custom = 2"

text \<open>\<^verbatim>\<open>diffMap[gameState.currentPrompt?.difficulty || 'easy']\<close>.\<close>

definition base :: "GameState \<Rightarrow> int" where
  "base g = diffMap (case currentPrompt g of None \<Rightarrow> easy | Some p \<Rightarrow> difficulty p)"

definition isSpeedBonus :: "GameState \<Rightarrow> bool" where
  "isSpeedBonus g = (timer g \<ge> SPEED_BONUS_THRESHOLD)"

text \<open>
  The callback of \<^verbatim>\<open>prev.players.map\<close> in \<^verbatim>\<open>submitScore\<close>; \<open>drawer\<close> is
  \<^verbatim>\<open>prev.players[prev.currentPlayerIndex]\<close>.
\<close>

definition bonus :: "GameState \<Rightarrow> string set \<Rightarrow> Player \<Rightarrow> Player \<Rightarrow> int" where
  "bonus g sel drawer p =
     (let isDrawer = (id_of p = id_of drawer);
          guessed = (id_of p \<in> sel)
      in (if isDrawer \<and> sel \<noteq> {} then base g else 0)
         + (if guessed then base g + (if isSpeedBonus g then 1 else 0) else 0))"

text \<open>
  \<^verbatim>\<open>submitScore\<close>. Reading \<^verbatim>\<open>.id\<close> or \<^verbatim>\<open>.name\<close> of
  \<^verbatim>\<open>prev.players[prev.currentPlayerIndex]\<close> throws a \<^verbatim>\<open>TypeError\<close> when the index
  is out of range: in the \<^verbatim>\<open>map\<close> callback for a non-empty roster, when the history
  entry is built otherwise.
\<close>

definition submitScore :: "App \<Rightarrow> error + App" where
  "submitScore a =
     (let prev = gameState a; sel = selectedGuesserIds a in
      case at_index (players prev) (currentPlayerIndex prev) of
        None \<Rightarrow> Inl TypeError
      | Some drawer \<Rightarrow>
          let nextPlayers = map (\<lambda>p. p\<lparr>score := score p + bonus prev sel drawer p\<rparr>) (players prev);
              winners = map name (filter (\<lambda>p. id_of p \<in> sel) (players prev));
              entry = \<lparr>playerName = name drawer, word_h = prompt_word (currentPrompt prev),
                       wasCorrect = (sel \<noteq> {}), winners = winners\<rparr>
          in Inr (a\<lparr>gameState := prev\<lparr>players := nextPlayers,
                                        history := history prev @ [entry],
                                        subPhase := Some POST_TURN\<rparr>\<rparr>))"

text \<open>\<^verbatim>\<open>difficultyPointsMap\<close> and \<^verbatim>\<open>finalizeScore\<close> of \<^verbatim>\<open>part_000\<close>.\<close>

fun difficultyPointsMap :: "difficulty_L \<Rightarrow> int" where
  "difficultyPointsMap easy_L = 1"
| "difficultyPointsMap medium_L = 2"
| "difficultyPointsMap hard_L = 3"

definition basePoints :: "GameState_L \<Rightarrow> int" where
  "basePoints g =
     difficultyPointsMap (case currentPrompt_L g of None \<Rightarrow> easy_L | Some p \<Rightarrow> difficulty p)"

definition isSpeedBonus_L :: "GameState_L \<Rightarrow> bool" where
  "isSpeedBonus_L g = (timer_L g \<ge> SPEED_BONUS_THRESHOLD)"

definition scoreIncrease :: "GameState_L \<Rightarrow> string set \<Rightarrow> Player \<Rightarrow> Player \<Rightarrow> int" where
  "scoreIncrease g sel drawer p =
     (let isDrawer = (id_of p = id_of drawer);
          isSelectedGuesser = (id_of p \<in> sel)
      in (if isDrawer \<and> sel \<noteq> {} then basePoints g else 0)
         + (if isSelectedGuesser
            then basePoints g + (if isSpeedBonus_L g then 1 else 0) else 0))"

definition finalizeScore :: "App_L \<Rightarrow> error + App_L" where
  "finalizeScore a =
     (let prev = gameState_L a; sel = selectedGuesserIds_L a in
      case at_index (players_L prev) (currentPlayerIndex_L prev) of
        None \<Rightarrow> Inl TypeError
      | Some drawer \<Rightarrow>
          let updatedPlayers =
                map (\<lambda>p. p\<lparr>score := score p + scoreIncrease prev sel drawer p\<rparr>) (players_L prev);
              winnersNames = map name (filter (\<lambda>p. id_of p \<in> sel) (players_L prev));
              newHistory = history_L prev @
                [\<lparr>playerName = name drawer, word_h = prompt_word (currentPrompt_L prev),
                  wasCorrect = (sel \<noteq> {}), winners = winnersNames\<rparr>]
          in Inr (a\<lparr>gameState_L := prev\<lparr>players_L := updatedPlayers,
                                          history_L := newHistory,
                                          phase_L := POST_TURN_L\<rparr>\<rparr>))"

section \<open>Turn scheduling in \<^verbatim>\<open>src/App.tsx\<close>\<close>

text \<open>
  \<^verbatim>\<open>arr[Math.floor(Math.random() * arr.length)]\<close>, with the randomness made an argument:
  the draw \<open>u\<close> is a real number whose product with the length, floored, is the index that
  is read. The source floors the product rounded to a double, so for the value \<open>v\<close> that
  \<^verbatim>\<open>Math.random()\<close> returned it may read the element next to the one at
  \<open>\<lfloor>v * length\<rfloor>\<close> (\<open>v = 0.8333333333333333\<close> and length 6 read index 5, not 4). The
  index it reads is in \<open>0..length - 1\<close> all the same, so it is the index of some draw
  \<open>0 \<le> u < 1\<close>, and the properties below hold for all such draws.
\<close>

definition rnd :: "'a list \<Rightarrow> real \<Rightarrow> 'a option" where
  "rnd arr u = (let k = \<lfloor>u * real (length arr)\<rfloor> in
                if 0 \<le> k \<and> k < int (length arr) then Some (arr ! nat k) else None)"

text \<open>The three successive draws of one turn setup are draws in \<open>[0, 1)\<close>.\<close>

definition unit_draws :: "real \<times> real \<times> real \<Rightarrow> bool" where
  "unit_draws rs = (case rs of (u1, u2, u3) \<Rightarrow>
     0 \<le> u1 \<and> u1 < 1 \<and> 0 \<le> u2 \<and> u2 < 1 \<and> 0 \<le> u3 \<and> u3 < 1)"

text \<open>
  \<^verbatim>\<open>setupTurn(playerIdx, roundNum, pool)\<close>. \<^verbatim>\<open>gameState.wordSource\<close> is read from
  the rendered state, which is the state the updater receives.
\<close>

definition setupTurn ::
  "real \<times> real \<times> real \<Rightarrow> js_index \<Rightarrow> int \<Rightarrow> difficulty Prompt list \<Rightarrow> App \<Rightarrow> App" where
  "setupTurn rs playerIdx roundNum pool a =
     (let available = pool;
          choices =
            (if wordSource (gameState a) = ai \<or> length pool > 3 then
               (let easy_arr = filter (\<lambda>p. difficulty p = easy \<or> difficulty p = custom) available;
                    med_arr = filter (\<lambda>p. difficulty p = medium) available;
                    hard_arr = filter (\<lambda>p. difficulty p = hard) available
                in case rs of (u1, u2, u3) \<Rightarrow>
                     [rnd (if length easy_arr \<noteq> 0 then easy_arr else available) u1,
                      rnd (if length med_arr \<noteq> 0 then med_arr else available) u2,
                      rnd (if length hard_arr \<noteq> 0 then hard_arr else available) u3])
             else map Some (take 3 available))
      in a\<lparr>gameState := (gameState a)\<lparr>phase := PLAYING, subPhase := Some PRE_TURN,
                                         currentPlayerIndex := playerIdx, currentPrompt := None,
                                         promptChoices := choices, timer := DEFAULT_TIME,
                                         rounds := roundNum\<rparr>\<rparr>)"

text \<open>
  \<^verbatim>\<open>activeSet\<close>:
  \<^verbatim>\<open>wordSets.find(s => s.id === selectedSetId) || wordSets[0] || { id: '', ... }\<close>.
\<close>

definition activeSet :: "App \<Rightarrow> WordSet" where
  "activeSet a =
     (case find (\<lambda>s. id_ws s = selectedSetId a) (wordSets a) of
        Some s \<Rightarrow> s
      | None \<Rightarrow> (case wordSets a of
                   s # _ \<Rightarrow> s
                 | [] \<Rightarrow> \<lparr>id_ws = [], name_ws = [], easy_ws = [], medium_ws = [], hard_ws = []\<rparr>))"

text \<open>What a handler asks of the outside world.\<close>

datatype effect = GeneratePrompts nat | Alert string

text \<open>
  \<^verbatim>\<open>startMatch\<close> up to its \<^verbatim>\<open>await\<close>, returning the new state and the effects it
  caused; \<open>promptsResolved\<close> is the rest of \<^verbatim>\<open>startMatch\<close>, run when
  \<^verbatim>\<open>generatePrompts(60)\<close> has resolved to \<open>prompts\<close>.
\<close>

definition customPrompts :: "App \<Rightarrow> difficulty Prompt list" where
  "customPrompts a =
     map (\<lambda>w. \<lparr>word = w, category = ''Easy'', difficulty = easy\<rparr>) (easy_ws (activeSet a))
     @ map (\<lambda>w. \<lparr>word = w, category = ''Medium'', difficulty = medium\<rparr>) (medium_ws (activeSet a))
     @ map (\<lambda>w. \<lparr>word = w, category = ''Hard'', difficulty = hard\<rparr>) (hard_ws (activeSet a))"

definition startMatch :: "real \<times> real \<times> real \<Rightarrow> App \<Rightarrow> App \<times> effect list" where
  "startMatch rs a =
     (if length (players (gameState a)) < 2 then (a, [])
      else if wordSource (gameState a) = ai then
        (a\<lparr>gameState := (gameState a)\<lparr>phase := PLAYING, subPhase := Some GETTING_PROMPTS\<rparr>\<rparr>,
         [GeneratePrompts 60])
      else if length (customPrompts a) < 3 then
        (a\<lparr>isSettingsOpen := True\<rparr>,
         [Alert ''This bank needs more words! Categorize them into Easy, Medium, and Hard in settings.''])
      else (setupTurn rs (Idx 0) 1 (customPrompts a) (a\<lparr>allPrompts := customPrompts a\<rparr>), []))"

definition promptsResolved ::
  "real \<times> real \<times> real \<Rightarrow> difficulty Prompt list \<Rightarrow> App \<Rightarrow> App" where
  "promptsResolved rs prompts a = setupTurn rs (Idx 0) 1 prompts (a\<lparr>allPrompts := prompts\<rparr>)"

text \<open>\<^verbatim>\<open>selectPrompt\<close>, applied to an entry of \<^verbatim>\<open>promptChoices\<close>.\<close>

definition selectPrompt :: "difficulty Prompt option \<Rightarrow> App \<Rightarrow> App" where
  "selectPrompt prompt a =
     a\<lparr>gameState := (gameState a)\<lparr>currentPrompt := prompt, subPhase := Some DRAWING\<rparr>\<rparr>"

text \<open>
  The updater that the interval of the timer effect runs every second while the sub-phase is
  \<^verbatim>\<open>DRAWING\<close>.
\<close>

definition tick :: "App \<Rightarrow> error + App" where
  "tick a =
     (let prev = gameState a in
      if timer prev \<le> 1 then
        (case at_index (players prev) (currentPlayerIndex prev) of
           None \<Rightarrow> Inl TypeError
         | Some drawer \<Rightarrow>
             let entry = \<lparr>playerName = name drawer, word_h = prompt_word (currentPrompt prev),
                          wasCorrect = False, winners = []\<rparr>
             in Inr (a\<lparr>gameState := prev\<lparr>timer := 0, history := history prev @ [entry],
                                           subPhase := Some POST_TURN\<rparr>\<rparr>))
      else Inr (a\<lparr>gameState := prev\<lparr>timer := timer prev - 1\<rparr>\<rparr>))"

definition confirmSolved :: "App \<Rightarrow> App" where
  "confirmSolved a =
     a\<lparr>selectedGuesserIds := {},
       gameState := (gameState a)\<lparr>subPhase := Some CONFIRM_SCORE\<rparr>\<rparr>"

definition skipTurn :: "App \<Rightarrow> error + App" where
  "skipTurn a =
     (let prev = gameState a in
      case at_index (players prev) (currentPlayerIndex prev) of
        None \<Rightarrow> Inl TypeError
      | Some drawer \<Rightarrow>
          let entry = \<lparr>playerName = name drawer, word_h = prompt_word (currentPrompt prev),
                       wasCorrect = False, winners = []\<rparr>
          in Inr (a\<lparr>gameState := prev\<lparr>history := history prev @ [entry],
                                        subPhase := Some POST_TURN\<rparr>\<rparr>))"

text \<open>\<^verbatim>\<open>(i + 1) % n\<close> on JavaScript numbers: \<^verbatim>\<open>NaN\<close> for \<open>n = 0\<close>.\<close>

definition next_index :: "js_index \<Rightarrow> nat \<Rightarrow> js_index" where
  "next_index i n = (case i of Idx k \<Rightarrow> (if n = 0 then NaN else Idx ((k + 1) mod n))
                       | NaN \<Rightarrow> NaN)"

definition nextTurn :: "real \<times> real \<times> real \<Rightarrow> App \<Rightarrow> App" where
  "nextTurn rs a =
     (let nextIdx = next_index (currentPlayerIndex (gameState a)) (length (players (gameState a)))
      in if nextIdx = Idx 0
         then a\<lparr>gameState := (gameState a)\<lparr>subPhase := Some ROUND_LEADERBOARD\<rparr>\<rparr>
         else setupTurn rs nextIdx (rounds (gameState a)) (allPrompts a) a)"

definition nextRound :: "real \<times> real \<times> real \<Rightarrow> App \<Rightarrow> App" where
  "nextRound rs a =
     (if rounds (gameState a) \<ge> maxRounds (gameState a)
      then a\<lparr>gameState := (gameState a)\<lparr>phase := GAME_OVER, subPhase := None\<rparr>\<rparr>
      else setupTurn rs (Idx 0) (rounds (gameState a) + 1) (allPrompts a) a)"

definition endEarly :: "App \<Rightarrow> App" where
  "endEarly a = a\<lparr>gameState := (gameState a)\<lparr>phase := GAME_OVER, subPhase := None\<rparr>\<rparr>"

text \<open>The \<^verbatim>\<open>READY\<close> button of the \<^verbatim>\<open>PRE_TURN\<close> screen.\<close>

definition ready :: "App \<Rightarrow> App" where
  "ready a = a\<lparr>gameState := (gameState a)\<lparr>subPhase := Some CHOOSE_PROMPT\<rparr>\<rparr>"

text \<open>The \<^verbatim>\<open>Back\<close> button of the \<^verbatim>\<open>CONFIRM_SCORE\<close> screen.\<close>

definition cancelScore :: "App \<Rightarrow> App" where
  "cancelScore a = a\<lparr>gameState := (gameState a)\<lparr>subPhase := Some DRAWING\<rparr>\<rparr>"

text \<open>
  The button of player \<open>p\<close> on the \<^verbatim>\<open>CONFIRM_SCORE\<close> screen: it copies the set and
  flips the membership of \<^verbatim>\<open>p.id\<close>.
\<close>

definition toggleGuesser :: "Player \<Rightarrow> App \<Rightarrow> App" where
  "toggleGuesser p a =
     a\<lparr>selectedGuesserIds :=
         (if id_of p \<in> selectedGuesserIds a then selectedGuesserIds a - {id_of p}
          else insert (id_of p) (selectedGuesserIds a))\<rparr>"

text \<open>
  The controls of a running match. \<open>fire e a\<close> is the state after the control \<open>e\<close> was
  used in state \<open>a\<close>; it is \<open>None\<close> when the screen rendered for \<open>a\<close> does not offer
  the control, when the draws are not in \<open>[0, 1)\<close>, and when
  the handler throws. The guesser buttons are rendered for
  \<^verbatim>\<open>players.filter((_, idx) => idx !== currentPlayerIndex)\<close>; \<^verbatim>\<open>End Early\<close> is
  offered on the \<^verbatim>\<open>PRE_TURN\<close> and \<^verbatim>\<open>DRAWING\<close> screens. The roster and the settings
  (word source, word banks) are edited from the start screen only and are not among these
  controls. A screen that throws while rendering (an \<^verbatim>\<open>undefined\<close> drawer or choice)
  offers nothing; the guards do not look at that, so \<open>fire\<close> allows every use of a control
  that the app allows, and possibly more.
\<close>

datatype event =
  Ready | SelectPrompt nat | Tick | ConfirmSolved | SkipTurn | EndEarly | ToggleGuesser nat
  | Back | SubmitScore | NextTurn "real \<times> real \<times> real" | NextRound "real \<times> real \<times> real"

definition on_screen :: "PlayingSubPhase \<Rightarrow> App \<Rightarrow> bool" where
  "on_screen sp a = (phase (gameState a) = PLAYING \<and> subPhase (gameState a) = Some sp)"

definition opt_of :: "error + 'a \<Rightarrow> 'a option" where
  "opt_of r = (case r of Inl _ \<Rightarrow> None | Inr x \<Rightarrow> Some x)"

fun fire :: "event \<Rightarrow> App \<Rightarrow> App option" where
  "fire Ready a = (if on_screen PRE_TURN a then Some (ready a) else None)"
| "fire (SelectPrompt k) a =
     (if on_screen CHOOSE_PROMPT a \<and> k < length (promptChoices (gameState a))
      then Some (selectPrompt (promptChoices (gameState a) ! k) a) else None)"
| "fire Tick a = (if on_screen DRAWING a then opt_of (tick a) else None)"
| "fire ConfirmSolved a = (if on_screen DRAWING a then Some (confirmSolved a) else None)"
| "fire SkipTurn a = (if on_screen DRAWING a then opt_of (skipTurn a) else None)"
| "fire EndEarly a =
     (if on_screen PRE_TURN a \<or> on_screen DRAWING a then Some (endEarly a) else None)"
| "fire (ToggleGuesser j) a =
     (if on_screen CONFIRM_SCORE a \<and> j < length (players (gameState a))
         \<and> Idx j \<noteq> currentPlayerIndex (gameState a)
      then Some (toggleGuesser (players (gameState a) ! j) a) else None)"
| "fire Back a = (if on_screen CONFIRM_SCORE a then Some (cancelScore a) else None)"
| "fire SubmitScore a = (if on_screen CONFIRM_SCORE a then opt_of (submitScore a) else None)"
| "fire (NextTurn rs) a =
     (if on_screen POST_TURN a \<and> unit_draws rs then Some (nextTurn rs a) else None)"
| "fire (NextRound rs) a =
     (if on_screen ROUND_LEADERBOARD a \<and> unit_draws rs then Some (nextRound rs a) else None)"

fun run :: "event list \<Rightarrow> App \<Rightarrow> App option" where
  "run [] a = Some a"
| "run (e # es) a = (case fire e a of None \<Rightarrow> None | Some a' \<Rightarrow> run es a')"

section \<open>Turn scheduling in \<^verbatim>\<open>part_000\<close>\<close>

text \<open>
  \<^verbatim>\<open>startTurnSetup(playerIdx, roundNum, promptsList)\<close>. Its \<^verbatim>\<open>getRandom\<close> has the body
  of \<^verbatim>\<open>rnd\<close> in \<^verbatim>\<open>setupTurn\<close>, and is \<open>rnd\<close> here.
\<close>

definition startTurnSetup ::
  "real \<times> real \<times> real \<Rightarrow> js_index \<Rightarrow> int \<Rightarrow> difficulty_L Prompt list \<Rightarrow> App_L \<Rightarrow> App_L" where
  "startTurnSetup rs playerIdx roundNum promptsList a =
     (let easy_arr = filter (\<lambda>p. difficulty p = easy_L) promptsList;
          medium_arr = filter (\<lambda>p. difficulty p = medium_L) promptsList;
          hard_arr = filter (\<lambda>p. difficulty p = hard_L) promptsList;
          choices = (case rs of (u1, u2, u3) \<Rightarrow>
                       [rnd (if length easy_arr > 0 then easy_arr else promptsList) u1,
                        rnd (if length medium_arr > 0 then medium_arr else promptsList) u2,
                        rnd (if length hard_arr > 0 then hard_arr else promptsList) u3])
      in a\<lparr>gameState_L := (gameState_L a)\<lparr>phase_L := PRE_TURN_L,
                                             currentPlayerIndex_L := playerIdx,
                                             currentPrompt_L := None,
                                             promptChoices_L := choices,
                                             timer_L := DEFAULT_TIME,
                                             rounds_L := roundNum\<rparr>\<rparr>)"

text \<open>
  \<^verbatim>\<open>startGame\<close> up to its \<^verbatim>\<open>await\<close>, and its rest, run when
  \<^verbatim>\<open>generatePrompts(100)\<close> has resolved.
\<close>

definition startGame :: "App_L \<Rightarrow> App_L \<times> effect list" where
  "startGame a =
     (if length (players_L (gameState_L a)) < 2 then (a, [])
      else (a\<lparr>gameState_L := (gameState_L a)\<lparr>phase_L := GETTING_PROMPTS_L\<rparr>\<rparr>,
            [GeneratePrompts 100]))"

definition promptsResolved_L ::
  "real \<times> real \<times> real \<Rightarrow> difficulty_L Prompt list \<Rightarrow> App_L \<Rightarrow> App_L" where
  "promptsResolved_L rs prompts a =
     startTurnSetup rs (Idx 0) 1 prompts (a\<lparr>allPrompts_L := prompts\<rparr>)"

definition choosePrompt :: "difficulty_L Prompt option \<Rightarrow> App_L \<Rightarrow> App_L" where
  "choosePrompt prompt a =
     a\<lparr>gameState_L := (gameState_L a)\<lparr>currentPrompt_L := prompt, phase_L := DRAWING_L\<rparr>\<rparr>"

text \<open>The updater run by the interval of the timer effect of \<^verbatim>\<open>part_000\<close>.\<close>

definition tick_L :: "App_L \<Rightarrow> App_L" where
  "tick_L a =
     (let prev = gameState_L a in
      if timer_L prev \<le> 1
      then a\<lparr>gameState_L := prev\<lparr>timer_L := 0, phase_L := POST_TURN_L\<rparr>\<rparr>
      else a\<lparr>gameState_L := prev\<lparr>timer_L := timer_L prev - 1\<rparr>\<rparr>)"

definition enterScoringPhase :: "App_L \<Rightarrow> App_L" where
  "enterScoringPhase a =
     a\<lparr>selectedGuesserIds_L := {},
       gameState_L := (gameState_L a)\<lparr>phase_L := CONFIRM_SCORE_L\<rparr>\<rparr>"

text \<open>The \<^verbatim>\<open>onClick\<close> of the \<^verbatim>\<open>Surrender Turn\<close> button.\<close>

definition surrenderTurn :: "App_L \<Rightarrow> App_L" where
  "surrenderTurn a = a\<lparr>gameState_L := (gameState_L a)\<lparr>phase_L := POST_TURN_L\<rparr>\<rparr>"

definition handleNextTurn :: "real \<times> real \<times> real \<Rightarrow> App_L \<Rightarrow> App_L" where
  "handleNextTurn rs a =
     (let nextPlayerIdx = next_index (currentPlayerIndex_L (gameState_L a))
                                     (length (players_L (gameState_L a)))
      in if nextPlayerIdx = Idx 0
         then a\<lparr>gameState_L := (gameState_L a)\<lparr>phase_L := ROUND_LEADERBOARD_L\<rparr>\<rparr>
         else startTurnSetup rs nextPlayerIdx (rounds_L (gameState_L a)) (allPrompts_L a) a)"

definition proceedFromRoundLeaderboard :: "real \<times> real \<times> real \<Rightarrow> App_L \<Rightarrow> App_L" where
  "proceedFromRoundLeaderboard rs a =
     (let nextRound = rounds_L (gameState_L a) + 1
      in if nextRound > maxRounds_L (gameState_L a)
         then a\<lparr>gameState_L := (gameState_L a)\<lparr>phase_L := GAME_OVER_L\<rparr>\<rparr>
         else startTurnSetup rs (Idx 0) nextRound (allPrompts_L a) a)"

definition endGameEarly :: "App_L \<Rightarrow> App_L" where
  "endGameEarly a = a\<lparr>gameState_L := (gameState_L a)\<lparr>phase_L := GAME_OVER_L\<rparr>\<rparr>"

definition ready_L :: "App_L \<Rightarrow> App_L" where
  "ready_L a = a\<lparr>gameState_L := (gameState_L a)\<lparr>phase_L := CHOOSE_PROMPT_L\<rparr>\<rparr>"

definition cancelScore_L :: "App_L \<Rightarrow> App_L" where
  "cancelScore_L a = a\<lparr>gameState_L := (gameState_L a)\<lparr>phase_L := DRAWING_L\<rparr>\<rparr>"

definition toggleGuesser_L :: "Player \<Rightarrow> App_L \<Rightarrow> App_L" where
  "toggleGuesser_L p a =
     a\<lparr>selectedGuesserIds_L :=
         (if id_of p \<in> selectedGuesserIds_L a then selectedGuesserIds_L a - {id_of p}
          else insert (id_of p) (selectedGuesserIds_L a))\<rparr>"

text \<open>
  The controls of a running match of \<^verbatim>\<open>part_000\<close>, as \<open>fire\<close> above; \<open>SkipTurn\<close>
  stands for \<^verbatim>\<open>Surrender Turn\<close>. \<^verbatim>\<open>End Game Early\<close> is offered on the
  \<^verbatim>\<open>PRE_TURN\<close>, \<^verbatim>\<open>CHOOSE_PROMPT\<close>, \<^verbatim>\<open>DRAWING\<close> and \<^verbatim>\<open>ROUND_LEADERBOARD\<close>
  screens; the guesser buttons are rendered for
  \<^verbatim>\<open>players.filter((_, idx) => idx !== currentPlayerIndex)\<close>.
\<close>

fun fire_L :: "event \<Rightarrow> App_L \<Rightarrow> App_L option" where
  "fire_L Ready a = (if phase_L (gameState_L a) = PRE_TURN_L then Some (ready_L a) else None)"
| "fire_L (SelectPrompt k) a =
     (if phase_L (gameState_L a) = CHOOSE_PROMPT_L \<and> k < length (promptChoices_L (gameState_L a))
      then Some (choosePrompt (promptChoices_L (gameState_L a) ! k) a) else None)"
| "fire_L Tick a = (if phase_L (gameState_L a) = DRAWING_L then Some (tick_L a) else None)"
| "fire_L ConfirmSolved a =
     (if phase_L (gameState_L a) = DRAWING_L then Some (enterScoringPhase a) else None)"
| "fire_L SkipTurn a =
     (if phase_L (gameState_L a) = DRAWING_L then Some (surrenderTurn a) else None)"
| "fire_L EndEarly a =
     (if phase_L (gameState_L a) \<in> {PRE_TURN_L, CHOOSE_PROMPT_L, DRAWING_L, ROUND_LEADERBOARD_L}
      then Some (endGameEarly a) else None)"
| "fire_L (ToggleGuesser j) a =
     (if phase_L (gameState_L a) = CONFIRM_SCORE_L \<and> j < length (players_L (gameState_L a))
         \<and> Idx j \<noteq> currentPlayerIndex_L (gameState_L a)
      then Some (toggleGuesser_L (players_L (gameState_L a) ! j) a) else None)"
| "fire_L Back a =
     (if phase_L (gameState_L a) = CONFIRM_SCORE_L then Some (cancelScore_L a) else None)"
| "fire_L SubmitScore a =
     (if phase_L (gameState_L a) = CONFIRM_SCORE_L then opt_of (finalizeScore a) else None)"
| "fire_L (NextTurn rs) a =
     (if phase_L (gameState_L a) = POST_TURN_L \<and> unit_draws rs
      then Some (handleNextTurn rs a) else None)"
| "fire_L (NextRound rs) a =
     (if phase_L (gameState_L a) = ROUND_LEADERBOARD_L \<and> unit_draws rs
      then Some (proceedFromRoundLeaderboard rs a) else None)"

fun run_L :: "event list \<Rightarrow> App_L \<Rightarrow> App_L option" where
  "run_L [] a = Some a"
| "run_L (e # es) a = (case fire_L e a of None \<Rightarrow> None | Some a' \<Rightarrow> run_L es a')"

section \<open>Hints\<close>

text \<open>
  What one character of the word is rendered as: a blank separator, the revealed character
  in upper case, or an underscore.
\<close>

datatype hint_cell = Gap | Revealed char | Masked

text \<open>
  \<^verbatim>\<open>char.toUpperCase()\<close> on the letters \<^verbatim>\<open>a\<close> to \<^verbatim>\<open>z\<close>. Every other character is
  left as it is, where the source also maps the other letters of Unicode; the glyph of a
  revealed cell can differ for such a word, which cells are revealed cannot.
\<close>

definition toUpperCase :: "char \<Rightarrow> char" where
  "toUpperCase c = (let n = (of_char c :: nat) in
                    if 97 \<le> n \<and> n \<le> 122 then char_of (n - 32) else c)"

text \<open>
  The hint triggers of \<^verbatim>\<open>renderDrawing\<close> in \<^verbatim>\<open>part_000\<close>:
  \<^verbatim>\<open>(lengthTrigger, letter1Trigger, letter2Trigger, letter3Trigger)\<close>.
\<close>

fun triggers :: "difficulty_L \<Rightarrow> int \<times> int \<times> int \<times> int" where
  "triggers easy_L = (30, 20, 10, -1)"
| "triggers medium_L = (45, 35, 15, -1)"
| "triggers hard_L = (60, 45, 30, 15)"

definition difficulty_of :: "GameState_L \<Rightarrow> difficulty_L" where
  "difficulty_of g = (case currentPrompt_L g of None \<Rightarrow> easy_L | Some p \<Rightarrow> difficulty p)"

definition isRevealed_L :: "GameState_L \<Rightarrow> nat \<Rightarrow> bool" where
  "isRevealed_L g i =
     (case triggers (difficulty_of g) of (lengthTrigger, letter1Trigger, letter2Trigger, letter3Trigger) \<Rightarrow>
        let w = prompt_word (currentPrompt_L g) in
        (timer_L g < letter1Trigger \<and> i = 0)
        \<or> (timer_L g < letter2Trigger \<and> i = length w div 2)
        \<or> (timer_L g < letter3Trigger \<and> int i = int (length w) - 1))"

definition hintDisplay :: "GameState_L \<Rightarrow> hint_cell list" where
  "hintDisplay g =
     map (\<lambda>(i, char). if char = CHR '' '' then Gap
                       else if isRevealed_L g i then Revealed (toUpperCase char) else Masked)
         (enumerate 0 (prompt_word (currentPrompt_L g)))"

definition showLengthHint :: "GameState_L \<Rightarrow> bool" where
  "showLengthHint g =
     (case triggers (difficulty_of g) of (lengthTrigger, letter1Trigger, letter2Trigger, letter3Trigger) \<Rightarrow>
        timer_L g \<le> lengthTrigger)"

text \<open>\<^verbatim>\<open>{showLengthHint && (<div>{hintDisplay}</div>)}\<close>: \<open>None\<close> when nothing is rendered.\<close>

definition hint_L :: "GameState_L \<Rightarrow> hint_cell list option" where
  "hint_L g = (if showLengthHint g then Some (hintDisplay g) else None)"

text \<open>The \<^verbatim>\<open>DRAWING\<close> case of \<^verbatim>\<open>renderPlaying\<close> in \<^verbatim>\<open>src/App.tsx\<close>.\<close>

definition isRevealed :: "GameState \<Rightarrow> nat \<Rightarrow> bool" where
  "isRevealed g i =
     (let w = prompt_word (currentPrompt g);
          reveal1 = (timer g \<le> 50);
          reveal2 = (timer g \<le> 35);
          reveal3 = (timer g \<le> 20)
      in (reveal1 \<and> i = 0) \<or> (reveal2 \<and> i = length w div 2)
         \<or> (reveal3 \<and> int i = int (length w) - 1))"

definition hint :: "GameState \<Rightarrow> hint_cell list option" where
  "hint g =
     (let revealLen = (timer g \<le> 58) in
      if revealLen
      then Some (map (\<lambda>(i, char). if char = CHR '' '' then Gap
                                   else if isRevealed g i then Revealed (toUpperCase char) else Masked)
                     (enumerate 0 (prompt_word (currentPrompt g))))
      else None)"

text \<open>
  Whether the character at index \<open>i\<close> of the word is on the screen as a letter, in the
  two variants.
\<close>

definition shown_L :: "GameState_L \<Rightarrow> nat \<Rightarrow> bool" where
  "shown_L g i =
     (case hint_L g of
        None \<Rightarrow> False
      | Some cells \<Rightarrow> i < length cells
                      \<and> cells ! i = Revealed (toUpperCase (prompt_word (currentPrompt_L g) ! i)))"

definition shown :: "GameState \<Rightarrow> nat \<Rightarrow> bool" where
  "shown g i =
     (case hint g of
        None \<Rightarrow> False
      | Some cells \<Rightarrow> i < length cells
                      \<and> cells ! i = Revealed (toUpperCase (prompt_word (currentPrompt g) ! i)))"

section \<open>The post-turn screen of \<^verbatim>\<open>part_000\<close>\<close>

text \<open>
  The heading of \<^verbatim>\<open>renderPostTurn\<close>:
  \<^verbatim>\<open>lastHistory?.wasCorrect ? 'Point Awarded!' : 'Unlucky!'\<close> with
  \<^verbatim>\<open>lastHistory = gameState.history[gameState.history.length - 1]\<close>.
\<close>

definition renderPostTurn_heading :: "GameState_L \<Rightarrow> string" where
  "renderPostTurn_heading g =
     (if history_L g \<noteq> [] \<and> wasCorrect (last (history_L g))
      then ''Point Awarded!'' else ''Unlucky!'')"

section \<open>One prompt per difficulty bucket\<close>




section \<open>Starting a match\<close>

text \<open>
  A whole start of a match: \<^verbatim>\<open>startMatch\<close> and, when it asked for prompts, its rest on
  the list \<open>fetched\<close> that \<^verbatim>\<open>generatePrompts\<close> resolved to. \<open>None\<close> when no match
  starts, and when the draws \<open>rs\<close> are not in \<open>[0, 1)\<close>.
\<close>

definition launch :: "real \<times> real \<times> real \<Rightarrow> difficulty Prompt list \<Rightarrow> App \<Rightarrow> App option" where
  "launch rs fetched b =
     (if \<not> unit_draws rs \<or> length (players (gameState b)) < 2 then None
      else if wordSource (gameState b) = ai
      then Some (promptsResolved rs fetched (fst (startMatch rs b)))
      else if length (customPrompts b) < 3 then None
      else Some (fst (startMatch rs b)))"

definition launch_L ::
  "real \<times> real \<times> real \<Rightarrow> difficulty_L Prompt list \<Rightarrow> App_L \<Rightarrow> App_L option" where
  "launch_L rs fetched b =
     (if \<not> unit_draws rs \<or> length (players_L (gameState_L b)) < 2 then None
      else Some (promptsResolved_L rs fetched (fst (startGame b))))"

section \<open>Invariants of a running match\<close>

text \<open>
  The drawer exists; the pool is large enough for the word source; the offered choices are
  three prompts of the pool; and the selected guessers are players the
  \<^verbatim>\<open>CONFIRM_SCORE\<close> screen has a button for.
\<close>

definition drawer_ok :: "App \<Rightarrow> bool" where
  "drawer_ok a = (at_index (players (gameState a)) (currentPlayerIndex (gameState a)) \<noteq> None)"

definition pool_ok :: "App \<Rightarrow> bool" where
  "pool_ok a = (wordSource (gameState a) = ai \<or> 3 \<le> length (allPrompts a))"

definition choices_ok :: "App \<Rightarrow> bool" where
  "choices_ok a =
     (length (promptChoices (gameState a)) = 3
      \<and> (allPrompts a \<noteq> [] \<longrightarrow>
           (\<forall>c \<in> set (promptChoices (gameState a)). \<exists>p \<in> set (allPrompts a). c = Some p)))"

definition guessers_ok :: "App \<Rightarrow> bool" where
  "guessers_ok a =
     (on_screen CONFIRM_SCORE a \<longrightarrow>
        (\<forall>x \<in> selectedGuesserIds a. \<exists>j < length (players (gameState a)).
            Idx j \<noteq> currentPlayerIndex (gameState a) \<and> id_of (players (gameState a) ! j) = x))"



definition drawer_ok_L :: "App_L \<Rightarrow> bool" where
  "drawer_ok_L a =
     (at_index (players_L (gameState_L a)) (currentPlayerIndex_L (gameState_L a)) \<noteq> None)"

definition choices_ok_L :: "App_L \<Rightarrow> bool" where
  "choices_ok_L a =
     (length (promptChoices_L (gameState_L a)) = 3
      \<and> (allPrompts_L a \<noteq> [] \<longrightarrow>
           (\<forall>c \<in> set (promptChoices_L (gameState_L a)). \<exists>p \<in> set (allPrompts_L a). c = Some p)))"

definition guessers_ok_L :: "App_L \<Rightarrow> bool" where
  "guessers_ok_L a =
     (phase_L (gameState_L a) = CONFIRM_SCORE_L \<longrightarrow>
        (\<forall>x \<in> selectedGuesserIds_L a. \<exists>j < length (players_L (gameState_L a)).
            Idx j \<noteq> currentPlayerIndex_L (gameState_L a)
            \<and> id_of (players_L (gameState_L a) ! j) = x))"

section \<open>An example match\<close>

text \<open>
  Alice and Bob on the start screen, three fetched prompts, and the states of the first turn
  that the properties below are run on: the turn as set up, Alice drawing \<^verbatim>\<open>Cat\<close>
  with one second left, and the score being confirmed with Bob selected.
\<close>

definition alice :: Player where
  "alice = \<lparr>id_of = ''p1'', name = ''Alice'', score = 0\<rparr>"

definition bob :: Player where
  "bob = \<lparr>id_of = ''p2'', name = ''Bob'', score = 0\<rparr>"

definition cat :: "difficulty Prompt" where
  "cat = \<lparr>word = ''Cat'', category = ''Animals'', difficulty = easy\<rparr>"

definition robot :: "difficulty Prompt" where
  "robot = \<lparr>word = ''Robot'', category = ''Objects'', difficulty = medium\<rparr>"

definition gravity :: "difficulty Prompt" where
  "gravity = \<lparr>word = ''Gravity'', category = ''Abstract'', difficulty = hard\<rparr>"

definition ice_cream :: "difficulty Prompt" where
  "ice_cream = \<lparr>word = ''Ice Cream'', category = ''Food'', difficulty = easy\<rparr>"

definition home :: App where
  "home = \<lparr>gameState = \<lparr>phase = HOME, subPhase = None, players = [alice, bob],
                          currentPlayerIndex = Idx 0, currentPrompt = None, promptChoices = [],
                          timer = 60, rounds = 1, maxRounds = 5, wordSource = ai, history = []\<rparr>,
           allPrompts = [], selectedGuesserIds = {}, isSettingsOpen = False,
           wordSets = [], selectedSetId = ''default''\<rparr>"

definition first_turn :: App where
  "first_turn = home\<lparr>gameState := (gameState home)\<lparr>phase := PLAYING, subPhase := Some PRE_TURN,
                        promptChoices := [Some cat, Some robot, Some gravity]\<rparr>,
                    allPrompts := [cat, robot, gravity]\<rparr>"

definition choosing :: App where
  "choosing = first_turn\<lparr>gameState := (gameState first_turn)\<lparr>subPhase := Some CHOOSE_PROMPT\<rparr>\<rparr>"

definition drawing :: "int \<Rightarrow> App" where
  "drawing t = first_turn\<lparr>gameState := (gameState first_turn)\<lparr>subPhase := Some DRAWING,
                              currentPrompt := Some cat, timer := t\<rparr>\<rparr>"

definition confirming :: App where
  "confirming = first_turn\<lparr>gameState := (gameState first_turn)\<lparr>subPhase := Some CONFIRM_SCORE,
                                currentPrompt := Some cat\<rparr>,
                          selectedGuesserIds := {''p2''}\<rparr>"

definition scored :: App where
  "scored = confirming\<lparr>gameState := (gameState confirming)
              \<lparr>players := [alice\<lparr>score := 1\<rparr>, bob\<lparr>score := 2\<rparr>],
               history := [\<lparr>playerName = ''Alice'', word_h = ''Cat'', wasCorrect = True,
                            winners = [''Bob'']\<rparr>],
               subPhase := Some POST_TURN\<rparr>\<rparr>"

text \<open>
  The start screen in custom mode with a bank of three words, none of them easy, and the
  first turn of that match.
\<close>

definition bee :: "difficulty Prompt" where
  "bee = \<lparr>word = ''Bee'', category = ''Medium'', difficulty = medium\<rparr>"

definition cow :: "difficulty Prompt" where
  "cow = \<lparr>word = ''Cow'', category = ''Hard'', difficulty = hard\<rparr>"

definition dog :: "difficulty Prompt" where
  "dog = \<lparr>word = ''Dog'', category = ''Hard'', difficulty = hard\<rparr>"

definition farm :: WordSet where
  "farm = \<lparr>id_ws = ''default'', name_ws = ''Farm'', easy_ws = [], medium_ws = [''Bee''],
            hard_ws = [''Cow'', ''Dog'']\<rparr>"

definition farm_home :: App where
  "farm_home = home\<lparr>gameState := (gameState home)\<lparr>wordSource := custom_bank\<rparr>,
                    wordSets := [farm]\<rparr>"

definition farm_turn :: App where
  "farm_turn = farm_home\<lparr>gameState := (gameState farm_home)\<lparr>phase := PLAYING,
                            subPhase := Some PRE_TURN,
                            promptChoices := [Some bee, Some cow, Some dog]\<rparr>,
                        allPrompts := [bee, cow, dog]\<rparr>"

definition farm_choosing :: App where
  "farm_choosing = farm_turn\<lparr>gameState := (gameState farm_turn)\<lparr>subPhase := Some CHOOSE_PROMPT\<rparr>\<rparr>"

text \<open>The same match in \<^verbatim>\<open>part_000\<close>.\<close>

definition cat_L :: "difficulty_L Prompt" where
  "cat_L = \<lparr>word = ''Cat'', category = ''Animals'', difficulty = easy_L\<rparr>"

definition robot_L :: "difficulty_L Prompt" where
  "robot_L = \<lparr>word = ''Robot'', category = ''Objects'', difficulty = medium_L\<rparr>"

definition gravity_L :: "difficulty_L Prompt" where
  "gravity_L = \<lparr>word = ''Gravity'', category = ''Abstract'', difficulty = hard_L\<rparr>"

definition ice_cream_L :: "difficulty_L Prompt" where
  "ice_cream_L = \<lparr>word = ''Ice Cream'', category = ''Food'', difficulty = easy_L\<rparr>"

definition ox_L :: "difficulty_L Prompt" where
  "ox_L = \<lparr>word = ''Ox'', category = ''Animals'', difficulty = easy_L\<rparr>"

definition lobby :: App_L where
  "lobby = \<lparr>gameState_L = \<lparr>players_L = [alice, bob], currentPlayerIndex_L = Idx 0,
                             currentPrompt_L = None, promptChoices_L = [], phase_L = LOBBY,
                             timer_L = 60, rounds_L = 1, maxRounds_L = 5, history_L = []\<rparr>,
            allPrompts_L = [], selectedGuesserIds_L = {}\<rparr>"

definition first_turn_L :: App_L where
  "first_turn_L = lobby\<lparr>gameState_L := (gameState_L lobby)\<lparr>phase_L := PRE_TURN_L,
                            promptChoices_L := [Some cat_L, Some robot_L, Some gravity_L]\<rparr>,
                        allPrompts_L := [cat_L, robot_L, gravity_L]\<rparr>"

definition choosing_L :: App_L where
  "choosing_L = first_turn_L\<lparr>gameState_L := (gameState_L first_turn_L)\<lparr>phase_L := CHOOSE_PROMPT_L\<rparr>\<rparr>"

definition drawing_L :: "int \<Rightarrow> App_L" where
  "drawing_L t = first_turn_L\<lparr>gameState_L := (gameState_L first_turn_L)\<lparr>phase_L := DRAWING_L,
                                  currentPrompt_L := Some cat_L, timer_L := t\<rparr>\<rparr>"

definition confirming_L :: App_L where
  "confirming_L = first_turn_L\<lparr>gameState_L := (gameState_L first_turn_L)\<lparr>phase_L := CONFIRM_SCORE_L,
                                    currentPrompt_L := Some cat_L\<rparr>,
                              selectedGuesserIds_L := {''p2''}\<rparr>"

definition scored_L :: App_L where
  "scored_L = confirming_L\<lparr>gameState_L := (gameState_L confirming_L)
                \<lparr>players_L := [alice\<lparr>score := 1\<rparr>, bob\<lparr>score := 2\<rparr>],
                 history_L := [\<lparr>playerName = ''Alice'', word_h = ''Cat'', wasCorrect = True,
                                winners = [''Bob'']\<rparr>],
                 phase_L := POST_TURN_L\<rparr>\<rparr>"

section \<open>Properties\<close>

subsection \<open>Choosing the prompts\<close>

lemma opt_of_Some: "opt_of r = Some x \<longleftrightarrow> r = Inr x"
  by (cases r) (simp_all add: opt_of_def)

lemma rnd_in:
  assumes "arr \<noteq> []" "0 \<le> u" "u < 1"
  shows "\<exists>p \<in> set arr. rnd arr u = Some p"
proof -
  let ?n = "length arr"
  have n: "0 < real ?n" using assms(1) by simp
  have lo: "0 \<le> \<lfloor>u * real ?n\<rfloor>" using assms(2) by simp
  have "u * real ?n < real ?n" using assms(3) n by simp
  then have hi: "\<lfloor>u * real ?n\<rfloor> < int ?n" by (simp add: floor_less_iff)
  from lo hi have "nat \<lfloor>u * real ?n\<rfloor> < ?n" by linarith
  then have "arr ! nat \<lfloor>u * real ?n\<rfloor> \<in> set arr" by simp
  with lo hi show ?thesis by (simp add: rnd_def Let_def)
qed

lemma rnd_sub:
  assumes "arr \<noteq> []" "0 \<le> u" "u < 1" "set arr \<subseteq> S"
  shows "\<exists>p \<in> S. rnd arr u = Some p"
  using rnd_in [OF assms(1-3)] assms(4) by blast

lemma rnd_bucket:
  assumes "pool \<noteq> []" "0 \<le> u" "u < 1"
  shows "\<exists>p \<in> set pool. rnd (if length (filter P pool) \<noteq> 0 then filter P pool else pool) u = Some p"
  by (rule rnd_sub) (use assms in auto)

lemma setupTurn_frame [simp]:
  "players (gameState (setupTurn rs i r pool a)) = players (gameState a)"
  "history (gameState (setupTurn rs i r pool a)) = history (gameState a)"
  "wordSource (gameState (setupTurn rs i r pool a)) = wordSource (gameState a)"
  "currentPlayerIndex (gameState (setupTurn rs i r pool a)) = i"
  "phase (gameState (setupTurn rs i r pool a)) = PLAYING"
  "subPhase (gameState (setupTurn rs i r pool a)) = Some PRE_TURN"
  "rounds (gameState (setupTurn rs i r pool a)) = r"
  "timer (gameState (setupTurn rs i r pool a)) = DEFAULT_TIME"
  "allPrompts (setupTurn rs i r pool a) = allPrompts a"
  "selectedGuesserIds (setupTurn rs i r pool a) = selectedGuesserIds a"
  by (simp_all add: setupTurn_def Let_def)

lemma setupTurn_length:
  "wordSource (gameState a) = ai \<or> 3 \<le> length pool \<Longrightarrow>
   length (promptChoices (gameState (setupTurn rs i r pool a))) = 3"
  by (cases rs) (auto simp: setupTurn_def Let_def)

lemma setupTurn_members:
  assumes "unit_draws rs" "pool \<noteq> []" "c \<in> set (promptChoices (gameState (setupTurn rs i r pool a)))"
  shows "\<exists>p \<in> set pool. c = Some p"
proof -
  obtain u1 u2 u3 where rs: "rs = (u1, u2, u3)" by (cases rs)
  with assms(1) have u: "0 \<le> u1" "u1 < 1" "0 \<le> u2" "u2 < 1" "0 \<le> u3" "u3 < 1"
    by (simp_all add: unit_draws_def)
  show ?thesis
  proof (cases "wordSource (gameState a) = ai \<or> length pool > 3")
    case True
    with assms(3) rs have "c = rnd (if length (filter (\<lambda>p. difficulty p = easy \<or> difficulty p = custom) pool) \<noteq> 0 then filter (\<lambda>p. difficulty p = easy \<or> difficulty p = custom) pool else pool) u1
      \<or> c = rnd (if length (filter (\<lambda>p. difficulty p = medium) pool) \<noteq> 0 then filter (\<lambda>p. difficulty p = medium) pool else pool) u2
      \<or> c = rnd (if length (filter (\<lambda>p. difficulty p = hard) pool) \<noteq> 0 then filter (\<lambda>p. difficulty p = hard) pool else pool) u3"
      by (simp add: setupTurn_def Let_def)
    then show ?thesis
    proof (elim disjE)
      assume "c = rnd (if length (filter (\<lambda>p. difficulty p = easy \<or> difficulty p = custom) pool) \<noteq> 0 then filter (\<lambda>p. difficulty p = easy \<or> difficulty p = custom) pool else pool) u1"
      then show ?thesis using rnd_bucket [OF assms(2) u(1,2)] by simp
    next
      assume "c = rnd (if length (filter (\<lambda>p. difficulty p = medium) pool) \<noteq> 0 then filter (\<lambda>p. difficulty p = medium) pool else pool) u2"
      then show ?thesis using rnd_bucket [OF assms(2) u(3,4)] by simp
    next
      assume "c = rnd (if length (filter (\<lambda>p. difficulty p = hard) pool) \<noteq> 0 then filter (\<lambda>p. difficulty p = hard) pool else pool) u3"
      then show ?thesis using rnd_bucket [OF assms(2) u(5,6)] by simp
    qed
  next
    case False
    with assms(3) have "c \<in> Some ` set (take 3 pool)" by (simp add: setupTurn_def Let_def)
    then show ?thesis by (auto dest: in_set_takeD)
  qed
qed

lemma setupTurn_choices_ok:
  assumes "unit_draws rs" "wordSource (gameState a) = ai \<or> 3 \<le> length pool" "allPrompts a = pool"
  shows "choices_ok (setupTurn rs i r pool a)"
proof -
  have "length (promptChoices (gameState (setupTurn rs i r pool a))) = 3"
    by (rule setupTurn_length [OF assms(2)])
  moreover have "\<exists>p \<in> set pool. c = Some p"
    if "pool \<noteq> []" "c \<in> set (promptChoices (gameState (setupTurn rs i r pool a)))" for c
    using setupTurn_members [OF assms(1) that] .
  ultimately show ?thesis
    by (simp add: choices_ok_def assms(3))
qed

subsection \<open>What each control changes\<close>

lemmas plain_defs = ready_def selectPrompt_def confirmSolved_def endEarly_def toggleGuesser_def cancelScore_def

lemma nextTurn_cases:
  "nextTurn rs a = a\<lparr>gameState := (gameState a)\<lparr>subPhase := Some ROUND_LEADERBOARD\<rparr>\<rparr>
   \<or> nextTurn rs a = setupTurn rs (next_index (currentPlayerIndex (gameState a)) (length (players (gameState a))))
          (rounds (gameState a)) (allPrompts a) a"
  by (simp add: nextTurn_def Let_def)

lemma nextRound_cases:
  "nextRound rs a = a\<lparr>gameState := (gameState a)\<lparr>phase := GAME_OVER, subPhase := None\<rparr>\<rparr>
   \<or> nextRound rs a = setupTurn rs (Idx 0) (rounds (gameState a) + 1) (allPrompts a) a"
  by (simp add: nextRound_def)

lemma tick_cases:
  assumes "tick a = Inr a'"
  shows "(\<exists>e. a' = a\<lparr>gameState := (gameState a)\<lparr>timer := 0, history := history (gameState a) @ [e], subPhase := Some POST_TURN\<rparr>\<rparr>)
    \<or> a' = a\<lparr>gameState := (gameState a)\<lparr>timer := timer (gameState a) - 1\<rparr>\<rparr>"
  using assms by (auto simp: tick_def Let_def split: if_splits option.splits)

lemma skipTurn_cases:
  assumes "skipTurn a = Inr a'"
  shows "\<exists>e. a' = a\<lparr>gameState := (gameState a)\<lparr>history := history (gameState a) @ [e], subPhase := Some POST_TURN\<rparr>\<rparr>"
  using assms by (auto simp: skipTurn_def Let_def split: option.splits)

lemma submitScore_cases:
  assumes "submitScore a = Inr a'"
  shows "\<exists>drawer e. at_index (players (gameState a)) (currentPlayerIndex (gameState a)) = Some drawer \<and>
     a' = a\<lparr>gameState := (gameState a)\<lparr>players := map (\<lambda>p. p\<lparr>score := score p + bonus (gameState a) (selectedGuesserIds a) drawer p\<rparr>) (players (gameState a)),
        history := history (gameState a) @ [e], subPhase := Some POST_TURN\<rparr>\<rparr>"
  using assms by (auto simp: submitScore_def Let_def split: option.splits)

lemma fire_frame:
  assumes "fire e a = Some a'"
  shows "allPrompts a' = allPrompts a \<and> wordSource (gameState a') = wordSource (gameState a)
     \<and> map id_of (players (gameState a')) = map id_of (players (gameState a))"
proof (cases e)
  case Tick
  with assms have "tick a = Inr a'" by (simp add: opt_of_Some split: if_splits)
  from tick_cases [OF this] show ?thesis by auto
next
  case SkipTurn
  with assms have "skipTurn a = Inr a'" by (simp add: opt_of_Some split: if_splits)
  from skipTurn_cases [OF this] show ?thesis by auto
next
  case SubmitScore
  with assms have "submitScore a = Inr a'" by (simp add: opt_of_Some split: if_splits)
  from submitScore_cases [OF this] show ?thesis by (auto simp: comp_def)
next
  case (NextTurn rs)
  with assms have "a' = nextTurn rs a" by (simp split: if_splits)
  with nextTurn_cases [of rs a] show ?thesis by auto
next
  case (NextRound rs)
  with assms have "a' = nextRound rs a" by (simp split: if_splits)
  with nextRound_cases [of rs a] show ?thesis by auto
qed (use assms in \<open>auto simp: plain_defs split: if_splits\<close>)

subsection \<open>Scores only grow\<close>

lemma diffMap_pos: "1 \<le> diffMap d"
  by (cases d) simp_all

lemma base_pos: "1 \<le> base g"
  by (simp add: base_def diffMap_pos)

lemma bonus_nonneg: "0 \<le> bonus g sel d p"
  using base_pos [of g] by (simp add: bonus_def Let_def)

lemma nextTurn_players [simp]: "players (gameState (nextTurn rs a)) = players (gameState a)"
  by (simp add: nextTurn_def Let_def)

lemma nextRound_players [simp]: "players (gameState (nextRound rs a)) = players (gameState a)"
  by (simp add: nextRound_def)

lemma tick_players: "tick a = Inr a' \<Longrightarrow> players (gameState a') = players (gameState a)"
  by (auto simp: tick_def Let_def split: if_splits option.splits)

lemma skipTurn_players: "skipTurn a = Inr a' \<Longrightarrow> players (gameState a') = players (gameState a)"
  by (auto simp: skipTurn_def Let_def split: option.splits)

lemma submitScore_players:
  "submitScore a = Inr a' \<Longrightarrow> \<exists>drawer. at_index (players (gameState a)) (currentPlayerIndex (gameState a)) = Some drawer \<and>
     players (gameState a') = map (\<lambda>p. p\<lparr>score := score p + bonus (gameState a) (selectedGuesserIds a) drawer p\<rparr>) (players (gameState a))"
  by (auto simp: submitScore_def Let_def split: option.splits)

lemma fire_players:
  "fire e a = Some a' \<Longrightarrow> e \<noteq> SubmitScore \<Longrightarrow> players (gameState a') = players (gameState a)"
proof (cases e)
  case Tick then show "fire e a = Some a' \<Longrightarrow> ?thesis"
    by (auto simp: opt_of_Some tick_players split: if_splits)
next
  case SkipTurn then show "fire e a = Some a' \<Longrightarrow> ?thesis"
    by (auto simp: opt_of_Some skipTurn_players split: if_splits)
qed (auto simp: ready_def selectPrompt_def confirmSolved_def endEarly_def toggleGuesser_def
       cancelScore_def split: if_splits)

lemma fire_mono:
  assumes "fire e a = Some a'"
  shows "list_all2 (\<lambda>p q. id_of q = id_of p \<and> score p \<le> score q) (players (gameState a)) (players (gameState a'))"
proof (cases "e = SubmitScore")
  case False
  with assms have "players (gameState a') = players (gameState a)" by (rule fire_players)
  then show ?thesis by (simp add: list.rel_refl)
next
  case True
  with assms have "submitScore a = Inr a'" by (simp add: opt_of_Some split: if_splits)
  then obtain drawer where
    "players (gameState a') = map (\<lambda>p. p\<lparr>score := score p + bonus (gameState a) (selectedGuesserIds a) drawer p\<rparr>) (players (gameState a))"
    using submitScore_players by blast
  then show ?thesis
    by (simp add: list.rel_map list.rel_refl bonus_nonneg)
qed

lemma run_mono:
  "run es a = Some a' \<Longrightarrow> list_all2 (\<lambda>p q. id_of q = id_of p \<and> score p \<le> score q) (players (gameState a)) (players (gameState a'))"
proof (induction es arbitrary: a)
  case Nil then show ?case by (simp add: list.rel_refl)
next
  case (Cons e es)
  then obtain b where b: "fire e a = Some b" "run es b = Some a'" by (auto split: option.splits)
  from fire_mono [OF b(1)] Cons.IH [OF b(2)] show ?case
    by (rule list_all2_trans [rotated]) auto
qed

subsection \<open>The invariants hold throughout a match\<close>

lemma drawer_ok_iff:
  "drawer_ok a \<longleftrightarrow> (\<exists>d. currentPlayerIndex (gameState a) = Idx d \<and> d < length (players (gameState a)))"
  by (auto simp: drawer_ok_def at_index_def split: js_index.splits)

lemma fire_index:
  assumes "fire e a = Some a'"
  shows "currentPlayerIndex (gameState a') = currentPlayerIndex (gameState a)
     \<or> currentPlayerIndex (gameState a') = next_index (currentPlayerIndex (gameState a)) (length (players (gameState a)))
     \<or> currentPlayerIndex (gameState a') = Idx 0"
proof (cases e)
  case Tick
  with assms have "tick a = Inr a'" by (simp add: opt_of_Some split: if_splits)
  from tick_cases [OF this] show ?thesis by auto
next
  case SkipTurn
  with assms have "skipTurn a = Inr a'" by (simp add: opt_of_Some split: if_splits)
  from skipTurn_cases [OF this] show ?thesis by auto
next
  case SubmitScore
  with assms have "submitScore a = Inr a'" by (simp add: opt_of_Some split: if_splits)
  from submitScore_cases [OF this] show ?thesis by auto
next
  case (NextTurn rs)
  with assms have "a' = nextTurn rs a" by (simp split: if_splits)
  with nextTurn_cases [of rs a] show ?thesis by auto
next
  case (NextRound rs)
  with assms have "a' = nextRound rs a" by (simp split: if_splits)
  with nextRound_cases [of rs a] show ?thesis by auto
qed (use assms in \<open>auto simp: plain_defs split: if_splits\<close>)

lemma fire_drawer_ok:
  assumes "fire e a = Some a'" "drawer_ok a"
  shows "drawer_ok a'"
proof -
  from assms(2) obtain d where d: "currentPlayerIndex (gameState a) = Idx d" "d < length (players (gameState a))"
    by (auto simp: drawer_ok_iff)
  from fire_frame [OF assms(1)] have "length (map id_of (players (gameState a'))) = length (map id_of (players (gameState a)))"
    by simp
  then have len: "length (players (gameState a')) = length (players (gameState a))" by simp
  from d have nx: "next_index (Idx d) (length (players (gameState a))) = Idx (Suc d mod length (players (gameState a)))"
    by (auto simp: next_index_def)
  from d(2) have "0 < length (players (gameState a))" by linarith
  then have "Suc d mod length (players (gameState a)) < length (players (gameState a))"
    by (rule mod_less_divisor)
  with fire_index [OF assms(1)] d nx len show ?thesis
    by (auto simp: drawer_ok_iff)
qed

lemma fire_pool_ok:
  assumes "fire e a = Some a'" "pool_ok a"
  shows "pool_ok a'"
  using fire_frame [OF assms(1)] assms(2) by (simp add: pool_ok_def)

lemma fire_choices:
  assumes "fire e a = Some a'"
  shows "promptChoices (gameState a') = promptChoices (gameState a)
    \<or> (\<exists>rs i r. unit_draws rs \<and> a' = setupTurn rs i r (allPrompts a) a)"
proof (cases e)
  case Tick
  with assms have "tick a = Inr a'" by (simp add: opt_of_Some split: if_splits)
  from tick_cases [OF this] show ?thesis by auto
next
  case SkipTurn
  with assms have "skipTurn a = Inr a'" by (simp add: opt_of_Some split: if_splits)
  from skipTurn_cases [OF this] show ?thesis by auto
next
  case SubmitScore
  with assms have "submitScore a = Inr a'" by (simp add: opt_of_Some split: if_splits)
  from submitScore_cases [OF this] show ?thesis by auto
next
  case (NextTurn rs)
  with assms have *: "a' = nextTurn rs a" "unit_draws rs" by (simp_all split: if_splits)
  from nextTurn_cases [of rs a] show ?thesis
  proof
    assume "nextTurn rs a = a\<lparr>gameState := (gameState a)\<lparr>subPhase := Some ROUND_LEADERBOARD\<rparr>\<rparr>"
    with * show ?thesis by simp
  next
    assume "nextTurn rs a = setupTurn rs (next_index (currentPlayerIndex (gameState a)) (length (players (gameState a))))
          (rounds (gameState a)) (allPrompts a) a"
    with * show ?thesis by blast
  qed
next
  case (NextRound rs)
  with assms have *: "a' = nextRound rs a" "unit_draws rs" by (simp_all split: if_splits)
  from nextRound_cases [of rs a] show ?thesis
  proof
    assume "nextRound rs a = a\<lparr>gameState := (gameState a)\<lparr>phase := GAME_OVER, subPhase := None\<rparr>\<rparr>"
    with * show ?thesis by simp
  next
    assume "nextRound rs a = setupTurn rs (Idx 0) (rounds (gameState a) + 1) (allPrompts a) a"
    with * show ?thesis by blast
  qed
qed (use assms in \<open>auto simp: plain_defs split: if_splits\<close>)

lemma fire_choices_ok:
  assumes "fire e a = Some a'" "pool_ok a" "choices_ok a"
  shows "choices_ok a'"
  using fire_choices [OF assms(1)]
proof
  assume "promptChoices (gameState a') = promptChoices (gameState a)"
  with fire_frame [OF assms(1)] assms(3) show ?thesis by (simp add: choices_ok_def)
next
  assume "\<exists>rs i r. unit_draws rs \<and> a' = setupTurn rs i r (allPrompts a) a"
  then obtain rs i r where "unit_draws rs" "a' = setupTurn rs i r (allPrompts a) a" by blast
  with assms(2) show ?thesis by (simp add: setupTurn_choices_ok pool_ok_def)
qed

lemma fire_leaves_confirm:
  assumes "fire e a = Some a'" "e \<noteq> ConfirmSolved" "\<And>j. e \<noteq> ToggleGuesser j"
  shows "\<not> on_screen CONFIRM_SCORE a'"
proof (cases e)
  case Tick
  with assms have "tick a = Inr a'" "on_screen DRAWING a" by (simp_all add: opt_of_Some split: if_splits)
  with tick_cases [of a a'] show ?thesis by (auto simp: on_screen_def)
next
  case SkipTurn
  with assms have "skipTurn a = Inr a'" by (simp add: opt_of_Some split: if_splits)
  from skipTurn_cases [OF this] show ?thesis by (auto simp: on_screen_def)
next
  case SubmitScore
  with assms have "submitScore a = Inr a'" by (simp add: opt_of_Some split: if_splits)
  from submitScore_cases [OF this] show ?thesis by (auto simp: on_screen_def)
next
  case (NextTurn rs)
  with assms have "a' = nextTurn rs a" by (simp split: if_splits)
  with nextTurn_cases [of rs a] show ?thesis by (auto simp: on_screen_def)
next
  case (NextRound rs)
  with assms have "a' = nextRound rs a" by (simp split: if_splits)
  with nextRound_cases [of rs a] show ?thesis by (auto simp: on_screen_def)
qed (use assms in \<open>auto simp: plain_defs on_screen_def split: if_splits\<close>)

lemma fire_guessers_ok:
  assumes "fire e a = Some a'" "guessers_ok a"
  shows "guessers_ok a'"
proof (cases e)
  case ConfirmSolved
  with assms(1) have "a' = confirmSolved a" by (simp split: if_splits)
  then show ?thesis by (simp add: guessers_ok_def confirmSolved_def)
next
  case (ToggleGuesser j)
  with assms(1) have g: "on_screen CONFIRM_SCORE a" "j < length (players (gameState a))"
    "Idx j \<noteq> currentPlayerIndex (gameState a)" and a': "a' = toggleGuesser (players (gameState a) ! j) a"
    by (simp_all split: if_splits)
  from a' have same: "gameState a' = gameState a"
    and sel: "selectedGuesserIds a' \<subseteq> insert (id_of (players (gameState a) ! j)) (selectedGuesserIds a)"
    by (auto simp: toggleGuesser_def)
  show ?thesis
    unfolding guessers_ok_def
  proof (intro impI ballI)
    fix x assume "x \<in> selectedGuesserIds a'"
    with sel have "x = id_of (players (gameState a) ! j) \<or> x \<in> selectedGuesserIds a" by auto
    then show "\<exists>k<length (players (gameState a')). Idx k \<noteq> currentPlayerIndex (gameState a') \<and> id_of (players (gameState a') ! k) = x"
    proof
      assume "x = id_of (players (gameState a) ! j)"
      with g same show ?thesis by auto
    next
      assume "x \<in> selectedGuesserIds a"
      with assms(2) g(1) same show ?thesis by (simp add: guessers_ok_def)
    qed
  qed
qed (use fire_leaves_confirm [OF assms(1)] in \<open>simp_all add: guessers_ok_def\<close>)

lemma run_inv:
  "run es a = Some a' \<Longrightarrow> drawer_ok a \<Longrightarrow> pool_ok a \<Longrightarrow> choices_ok a \<Longrightarrow> guessers_ok a \<Longrightarrow>
   drawer_ok a' \<and> pool_ok a' \<and> choices_ok a' \<and> guessers_ok a'"
proof (induction es arbitrary: a)
  case Nil
  then show ?case by simp
next
  case (Cons e es)
  from Cons.prems(1) obtain b where b: "fire e a = Some b" "run es b = Some a'"
    by (auto split: option.splits)
  show ?case
    using Cons.IH [OF b(2)] fire_drawer_ok [OF b(1)] fire_pool_ok [OF b(1)]
      fire_choices_ok [OF b(1)] fire_guessers_ok [OF b(1)] Cons.prems(2-5)
    by blast
qed

lemma run_frame:
  "run es a = Some a' \<Longrightarrow> allPrompts a' = allPrompts a \<and> map id_of (players (gameState a')) = map id_of (players (gameState a))"
proof (induction es arbitrary: a)
  case Nil
  then show ?case by simp
next
  case (Cons e es)
  from Cons.prems(1) obtain b where b: "fire e a = Some b" "run es b = Some a'"
    by (auto split: option.splits)
  from Cons.IH [OF b(2)] fire_frame [OF b(1)] show ?case by simp
qed

lemma setupTurn_start_inv:
  assumes rs: "unit_draws rs" and n: "2 \<le> length (players (gameState b'))"
    and pool: "allPrompts b' = pool" and src: "wordSource (gameState b') = ai \<or> 3 \<le> length pool"
  shows "drawer_ok (setupTurn rs (Idx 0) 1 pool b') \<and> pool_ok (setupTurn rs (Idx 0) 1 pool b')
     \<and> choices_ok (setupTurn rs (Idx 0) 1 pool b') \<and> guessers_ok (setupTurn rs (Idx 0) 1 pool b')"
proof -
  from n have "0 < length (players (gameState b'))" by linarith
  then have "drawer_ok (setupTurn rs (Idx 0) 1 pool b')" by (simp add: drawer_ok_iff)
  moreover have "pool_ok (setupTurn rs (Idx 0) 1 pool b')" using src by (simp add: pool pool_ok_def)
  moreover have "choices_ok (setupTurn rs (Idx 0) 1 pool b')" using rs src pool by (rule setupTurn_choices_ok)
  moreover have "guessers_ok (setupTurn rs (Idx 0) 1 pool b')" by (simp add: guessers_ok_def on_screen_def)
  ultimately show ?thesis by simp
qed

lemma launch_inv:
  assumes "launch rs fetched b = Some a0"
  shows "drawer_ok a0 \<and> pool_ok a0 \<and> choices_ok a0 \<and> guessers_ok a0
     \<and> players (gameState a0) = players (gameState b)"
proof (cases "wordSource (gameState b) = ai")
  case True
  with assms have *: "unit_draws rs" "2 \<le> length (players (gameState b))"
    "a0 = setupTurn rs (Idx 0) 1 fetched (b\<lparr>gameState := (gameState b)\<lparr>phase := PLAYING, subPhase := Some GETTING_PROMPTS\<rparr>, allPrompts := fetched\<rparr>)"
    by (auto simp: launch_def startMatch_def promptsResolved_def split: if_splits)
  show ?thesis
    unfolding *(3) using setupTurn_start_inv [OF *(1), of "b\<lparr>gameState := (gameState b)\<lparr>phase := PLAYING, subPhase := Some GETTING_PROMPTS\<rparr>, allPrompts := fetched\<rparr>" fetched]
      *(2) True by simp
next
  case False
  with assms have *: "unit_draws rs" "2 \<le> length (players (gameState b))" "3 \<le> length (customPrompts b)"
    "a0 = setupTurn rs (Idx 0) 1 (customPrompts b) (b\<lparr>allPrompts := customPrompts b\<rparr>)"
    by (auto simp: launch_def startMatch_def split: if_splits)
  show ?thesis
    unfolding *(4) using setupTurn_start_inv [OF *(1), of "b\<lparr>allPrompts := customPrompts b\<rparr>" "customPrompts b"]
      *(2,3) by simp
qed

subsection \<open>The same for \<^verbatim>\<open>part_000\<close>\<close>

lemma startTurnSetup_frame [simp]:
  "players_L (gameState_L (startTurnSetup rs i r pool a)) = players_L (gameState_L a)"
  "history_L (gameState_L (startTurnSetup rs i r pool a)) = history_L (gameState_L a)"
  "currentPlayerIndex_L (gameState_L (startTurnSetup rs i r pool a)) = i"
  "phase_L (gameState_L (startTurnSetup rs i r pool a)) = PRE_TURN_L"
  "rounds_L (gameState_L (startTurnSetup rs i r pool a)) = r"
  "timer_L (gameState_L (startTurnSetup rs i r pool a)) = DEFAULT_TIME"
  "allPrompts_L (startTurnSetup rs i r pool a) = allPrompts_L a"
  "selectedGuesserIds_L (startTurnSetup rs i r pool a) = selectedGuesserIds_L a"
  by (simp_all add: startTurnSetup_def Let_def)

lemma startTurnSetup_length:
  "length (promptChoices_L (gameState_L (startTurnSetup rs i r pool a))) = 3"
  by (cases rs) (simp add: startTurnSetup_def Let_def)

lemma rnd_bucket_L:
  assumes "pool \<noteq> []" "0 \<le> u" "u < 1"
  shows "\<exists>p \<in> set pool. rnd (if length (filter P pool) > 0 then filter P pool else pool) u = Some p"
  by (rule rnd_sub) (use assms in auto)

lemma startTurnSetup_members:
  assumes "unit_draws rs" "pool \<noteq> []"
    "c \<in> set (promptChoices_L (gameState_L (startTurnSetup rs i r pool a)))"
  shows "\<exists>p \<in> set pool. c = Some p"
proof -
  obtain u1 u2 u3 where rs: "rs = (u1, u2, u3)" by (cases rs)
  with assms(1) have u: "0 \<le> u1" "u1 < 1" "0 \<le> u2" "u2 < 1" "0 \<le> u3" "u3 < 1"
    by (simp_all add: unit_draws_def)
  from assms(3) rs have
    "c = rnd (if length (filter (\<lambda>p. difficulty p = easy_L) pool) > 0 then filter (\<lambda>p. difficulty p = easy_L) pool else pool) u1
     \<or> c = rnd (if length (filter (\<lambda>p. difficulty p = medium_L) pool) > 0 then filter (\<lambda>p. difficulty p = medium_L) pool else pool) u2
     \<or> c = rnd (if length (filter (\<lambda>p. difficulty p = hard_L) pool) > 0 then filter (\<lambda>p. difficulty p = hard_L) pool else pool) u3"
    by (simp add: startTurnSetup_def Let_def)
  then show ?thesis
  proof (elim disjE)
    assume "c = rnd (if length (filter (\<lambda>p. difficulty p = easy_L) pool) > 0 then filter (\<lambda>p. difficulty p = easy_L) pool else pool) u1"
    then show ?thesis using rnd_bucket_L [OF assms(2) u(1,2)] by simp
  next
    assume "c = rnd (if length (filter (\<lambda>p. difficulty p = medium_L) pool) > 0 then filter (\<lambda>p. difficulty p = medium_L) pool else pool) u2"
    then show ?thesis using rnd_bucket_L [OF assms(2) u(3,4)] by simp
  next
    assume "c = rnd (if length (filter (\<lambda>p. difficulty p = hard_L) pool) > 0 then filter (\<lambda>p. difficulty p = hard_L) pool else pool) u3"
    then show ?thesis using rnd_bucket_L [OF assms(2) u(5,6)] by simp
  qed
qed

lemma startTurnSetup_choices_ok:
  assumes "unit_draws rs" "allPrompts_L a = pool"
  shows "choices_ok_L (startTurnSetup rs i r pool a)"
proof -
  have "\<exists>p \<in> set pool. c = Some p"
    if "pool \<noteq> []" "c \<in> set (promptChoices_L (gameState_L (startTurnSetup rs i r pool a)))" for c
    using startTurnSetup_members [OF assms(1) that] .
  then show ?thesis
    by (simp add: choices_ok_L_def assms(2) startTurnSetup_length)
qed

lemmas plain_defs_L = ready_L_def choosePrompt_def enterScoringPhase_def endGameEarly_def
  toggleGuesser_L_def cancelScore_L_def surrenderTurn_def tick_L_def

lemma handleNextTurn_cases:
  "handleNextTurn rs a = a\<lparr>gameState_L := (gameState_L a)\<lparr>phase_L := ROUND_LEADERBOARD_L\<rparr>\<rparr>
   \<or> handleNextTurn rs a = startTurnSetup rs (next_index (currentPlayerIndex_L (gameState_L a)) (length (players_L (gameState_L a))))
          (rounds_L (gameState_L a)) (allPrompts_L a) a"
  by (simp add: handleNextTurn_def Let_def)

lemma proceed_cases:
  "proceedFromRoundLeaderboard rs a = a\<lparr>gameState_L := (gameState_L a)\<lparr>phase_L := GAME_OVER_L\<rparr>\<rparr>
   \<or> proceedFromRoundLeaderboard rs a = startTurnSetup rs (Idx 0) (rounds_L (gameState_L a) + 1) (allPrompts_L a) a"
  by (simp add: proceedFromRoundLeaderboard_def Let_def)

lemma finalizeScore_cases:
  assumes "finalizeScore a = Inr a'"
  shows "\<exists>drawer e. at_index (players_L (gameState_L a)) (currentPlayerIndex_L (gameState_L a)) = Some drawer \<and>
     a' = a\<lparr>gameState_L := (gameState_L a)\<lparr>players_L := map (\<lambda>p. p\<lparr>score := score p + scoreIncrease (gameState_L a) (selectedGuesserIds_L a) drawer p\<rparr>) (players_L (gameState_L a)),
        history_L := history_L (gameState_L a) @ [e], phase_L := POST_TURN_L\<rparr>\<rparr>"
  using assms by (auto simp: finalizeScore_def Let_def split: option.splits)

lemma fire_L_frame:
  assumes "fire_L e a = Some a'"
  shows "allPrompts_L a' = allPrompts_L a
     \<and> map id_of (players_L (gameState_L a')) = map id_of (players_L (gameState_L a))"
proof (cases e)
  case SubmitScore
  with assms have "finalizeScore a = Inr a'" by (simp add: opt_of_Some split: if_splits)
  from finalizeScore_cases [OF this] show ?thesis by (auto simp: comp_def)
next
  case (NextTurn rs)
  with assms have "a' = handleNextTurn rs a" by (simp split: if_splits)
  with handleNextTurn_cases [of rs a] show ?thesis by auto
next
  case (NextRound rs)
  with assms have "a' = proceedFromRoundLeaderboard rs a" by (simp split: if_splits)
  with proceed_cases [of rs a] show ?thesis by auto
qed (use assms in \<open>auto simp: plain_defs_L Let_def split: if_splits\<close>)

lemma fire_L_players:
  assumes "fire_L e a = Some a'" "e \<noteq> SubmitScore"
  shows "players_L (gameState_L a') = players_L (gameState_L a)"
proof (cases e)
  case (NextTurn rs)
  with assms have "a' = handleNextTurn rs a" by (simp split: if_splits)
  with handleNextTurn_cases [of rs a] show ?thesis by auto
next
  case (NextRound rs)
  with assms have "a' = proceedFromRoundLeaderboard rs a" by (simp split: if_splits)
  with proceed_cases [of rs a] show ?thesis by auto
qed (use assms in \<open>auto simp: plain_defs_L Let_def split: if_splits\<close>)

lemma difficultyPointsMap_pos: "1 \<le> difficultyPointsMap d"
  by (cases d) simp_all

lemma basePoints_pos: "1 \<le> basePoints g"
  by (simp add: basePoints_def difficultyPointsMap_pos)

lemma scoreIncrease_nonneg: "0 \<le> scoreIncrease g sel d p"
  using basePoints_pos [of g] by (simp add: scoreIncrease_def Let_def)

lemma fire_L_mono:
  assumes "fire_L e a = Some a'"
  shows "list_all2 (\<lambda>p q. id_of q = id_of p \<and> score p \<le> score q)
           (players_L (gameState_L a)) (players_L (gameState_L a'))"
proof (cases "e = SubmitScore")
  case False
  with assms have "players_L (gameState_L a') = players_L (gameState_L a)" by (rule fire_L_players)
  then show ?thesis by (simp add: list.rel_refl)
next
  case True
  with assms have "finalizeScore a = Inr a'" by (simp add: opt_of_Some split: if_splits)
  from finalizeScore_cases [OF this] show ?thesis
    by (auto simp: list.rel_map scoreIncrease_nonneg intro!: list.rel_refl)
qed

lemma run_L_mono:
  "run_L es a = Some a' \<Longrightarrow>
   list_all2 (\<lambda>p q. id_of q = id_of p \<and> score p \<le> score q)
     (players_L (gameState_L a)) (players_L (gameState_L a'))"
proof (induction es arbitrary: a)
  case Nil then show ?case by (simp add: list.rel_refl)
next
  case (Cons e es)
  then obtain b where b: "fire_L e a = Some b" "run_L es b = Some a'" by (auto split: option.splits)
  from fire_L_mono [OF b(1)] Cons.IH [OF b(2)] show ?case
    by (rule list_all2_trans [rotated]) auto
qed

lemma drawer_ok_L_iff:
  "drawer_ok_L a \<longleftrightarrow> (\<exists>d. currentPlayerIndex_L (gameState_L a) = Idx d \<and> d < length (players_L (gameState_L a)))"
  by (auto simp: drawer_ok_L_def at_index_def split: js_index.splits)

lemma fire_L_index:
  assumes "fire_L e a = Some a'"
  shows "currentPlayerIndex_L (gameState_L a') = currentPlayerIndex_L (gameState_L a)
     \<or> currentPlayerIndex_L (gameState_L a') = next_index (currentPlayerIndex_L (gameState_L a)) (length (players_L (gameState_L a)))
     \<or> currentPlayerIndex_L (gameState_L a') = Idx 0"
proof (cases e)
  case SubmitScore
  with assms have "finalizeScore a = Inr a'" by (simp add: opt_of_Some split: if_splits)
  from finalizeScore_cases [OF this] show ?thesis by auto
next
  case (NextTurn rs)
  with assms have "a' = handleNextTurn rs a" by (simp split: if_splits)
  with handleNextTurn_cases [of rs a] show ?thesis by auto
next
  case (NextRound rs)
  with assms have "a' = proceedFromRoundLeaderboard rs a" by (simp split: if_splits)
  with proceed_cases [of rs a] show ?thesis by auto
qed (use assms in \<open>auto simp: plain_defs_L Let_def split: if_splits\<close>)

lemma fire_L_drawer_ok:
  assumes "fire_L e a = Some a'" "drawer_ok_L a"
  shows "drawer_ok_L a'"
proof -
  from assms(2) obtain d where d: "currentPlayerIndex_L (gameState_L a) = Idx d" "d < length (players_L (gameState_L a))"
    by (auto simp: drawer_ok_L_iff)
  from fire_L_frame [OF assms(1)]
  have "length (map id_of (players_L (gameState_L a'))) = length (map id_of (players_L (gameState_L a)))"
    by simp
  then have len: "length (players_L (gameState_L a')) = length (players_L (gameState_L a))" by simp
  from d have nx: "next_index (Idx d) (length (players_L (gameState_L a))) = Idx (Suc d mod length (players_L (gameState_L a)))"
    by (auto simp: next_index_def)
  from d(2) have "0 < length (players_L (gameState_L a))" by linarith
  then have "Suc d mod length (players_L (gameState_L a)) < length (players_L (gameState_L a))"
    by (rule mod_less_divisor)
  with fire_L_index [OF assms(1)] d nx len show ?thesis
    by (auto simp: drawer_ok_L_iff)
qed

lemma fire_L_choices:
  assumes "fire_L e a = Some a'"
  shows "promptChoices_L (gameState_L a') = promptChoices_L (gameState_L a)
    \<or> (\<exists>rs i r. unit_draws rs \<and> a' = startTurnSetup rs i r (allPrompts_L a) a)"
proof (cases e)
  case SubmitScore
  with assms have "finalizeScore a = Inr a'" by (simp add: opt_of_Some split: if_splits)
  from finalizeScore_cases [OF this] show ?thesis by auto
next
  case (NextTurn rs)
  with assms have *: "a' = handleNextTurn rs a" "unit_draws rs" by (simp_all split: if_splits)
  from handleNextTurn_cases [of rs a] show ?thesis
  proof
    assume "handleNextTurn rs a = a\<lparr>gameState_L := (gameState_L a)\<lparr>phase_L := ROUND_LEADERBOARD_L\<rparr>\<rparr>"
    with * show ?thesis by simp
  next
    assume "handleNextTurn rs a = startTurnSetup rs (next_index (currentPlayerIndex_L (gameState_L a)) (length (players_L (gameState_L a))))
          (rounds_L (gameState_L a)) (allPrompts_L a) a"
    with * show ?thesis by blast
  qed
next
  case (NextRound rs)
  with assms have *: "a' = proceedFromRoundLeaderboard rs a" "unit_draws rs" by (simp_all split: if_splits)
  from proceed_cases [of rs a] show ?thesis
  proof
    assume "proceedFromRoundLeaderboard rs a = a\<lparr>gameState_L := (gameState_L a)\<lparr>phase_L := GAME_OVER_L\<rparr>\<rparr>"
    with * show ?thesis by simp
  next
    assume "proceedFromRoundLeaderboard rs a = startTurnSetup rs (Idx 0) (rounds_L (gameState_L a) + 1) (allPrompts_L a) a"
    with * show ?thesis by blast
  qed
qed (use assms in \<open>auto simp: plain_defs_L Let_def split: if_splits\<close>)

lemma fire_L_choices_ok:
  assumes "fire_L e a = Some a'" "choices_ok_L a"
  shows "choices_ok_L a'"
  using fire_L_choices [OF assms(1)]
proof
  assume "promptChoices_L (gameState_L a') = promptChoices_L (gameState_L a)"
  with fire_L_frame [OF assms(1)] assms(2) show ?thesis by (simp add: choices_ok_L_def)
next
  assume "\<exists>rs i r. unit_draws rs \<and> a' = startTurnSetup rs i r (allPrompts_L a) a"
  then obtain rs i r where "unit_draws rs" "a' = startTurnSetup rs i r (allPrompts_L a) a" by blast
  then show ?thesis by (simp add: startTurnSetup_choices_ok)
qed

lemma fire_L_leaves_confirm:
  assumes "fire_L e a = Some a'" "e \<noteq> ConfirmSolved" "\<And>j. e \<noteq> ToggleGuesser j"
  shows "phase_L (gameState_L a') \<noteq> CONFIRM_SCORE_L"
proof (cases e)
  case SubmitScore
  with assms have "finalizeScore a = Inr a'" by (simp add: opt_of_Some split: if_splits)
  from finalizeScore_cases [OF this] show ?thesis by auto
next
  case (NextTurn rs)
  with assms have "a' = handleNextTurn rs a" by (simp split: if_splits)
  with handleNextTurn_cases [of rs a] show ?thesis by auto
next
  case (NextRound rs)
  with assms have "a' = proceedFromRoundLeaderboard rs a" by (simp split: if_splits)
  with proceed_cases [of rs a] show ?thesis by auto
qed (use assms in \<open>auto simp: plain_defs_L Let_def split: if_splits\<close>)

lemma fire_L_guessers_ok:
  assumes "fire_L e a = Some a'" "guessers_ok_L a"
  shows "guessers_ok_L a'"
proof (cases e)
  case ConfirmSolved
  with assms(1) have "a' = enterScoringPhase a" by (simp split: if_splits)
  then show ?thesis by (simp add: guessers_ok_L_def enterScoringPhase_def)
next
  case (ToggleGuesser j)
  with assms(1) have g: "phase_L (gameState_L a) = CONFIRM_SCORE_L" "j < length (players_L (gameState_L a))"
    "Idx j \<noteq> currentPlayerIndex_L (gameState_L a)" and a': "a' = toggleGuesser_L (players_L (gameState_L a) ! j) a"
    by (simp_all split: if_splits)
  from a' have same: "gameState_L a' = gameState_L a"
    and sel: "selectedGuesserIds_L a' \<subseteq> insert (id_of (players_L (gameState_L a) ! j)) (selectedGuesserIds_L a)"
    by (auto simp: toggleGuesser_L_def)
  show ?thesis
    unfolding guessers_ok_L_def
  proof (intro impI ballI)
    fix x assume "x \<in> selectedGuesserIds_L a'"
    with sel have "x = id_of (players_L (gameState_L a) ! j) \<or> x \<in> selectedGuesserIds_L a" by auto
    then show "\<exists>k<length (players_L (gameState_L a')). Idx k \<noteq> currentPlayerIndex_L (gameState_L a') \<and> id_of (players_L (gameState_L a') ! k) = x"
    proof
      assume "x = id_of (players_L (gameState_L a) ! j)"
      with g same show ?thesis by auto
    next
      assume "x \<in> selectedGuesserIds_L a"
      with assms(2) g(1) same show ?thesis by (simp add: guessers_ok_L_def)
    qed
  qed
qed (use fire_L_leaves_confirm [OF assms(1)] in \<open>simp_all add: guessers_ok_L_def\<close>)

lemma run_L_inv:
  "run_L es a = Some a' \<Longrightarrow> drawer_ok_L a \<Longrightarrow> choices_ok_L a \<Longrightarrow> guessers_ok_L a \<Longrightarrow>
   drawer_ok_L a' \<and> choices_ok_L a' \<and> guessers_ok_L a'"
proof (induction es arbitrary: a)
  case Nil
  then show ?case by simp
next
  case (Cons e es)
  from Cons.prems(1) obtain b where b: "fire_L e a = Some b" "run_L es b = Some a'"
    by (auto split: option.splits)
  show ?case
    using Cons.IH [OF b(2)] fire_L_drawer_ok [OF b(1)]
      fire_L_choices_ok [OF b(1)] fire_L_guessers_ok [OF b(1)] Cons.prems(2-4)
    by blast
qed

lemma run_L_frame:
  "run_L es a = Some a' \<Longrightarrow> allPrompts_L a' = allPrompts_L a
     \<and> map id_of (players_L (gameState_L a')) = map id_of (players_L (gameState_L a))"
proof (induction es arbitrary: a)
  case Nil
  then show ?case by simp
next
  case (Cons e es)
  from Cons.prems(1) obtain b where b: "fire_L e a = Some b" "run_L es b = Some a'"
    by (auto split: option.splits)
  from Cons.IH [OF b(2)] fire_L_frame [OF b(1)] show ?case by simp
qed

lemma launch_L_inv:
  assumes "launch_L rs fetched b = Some a0"
  shows "drawer_ok_L a0 \<and> choices_ok_L a0 \<and> guessers_ok_L a0
     \<and> players_L (gameState_L a0) = players_L (gameState_L b) \<and> allPrompts_L a0 = fetched"
proof -
  let ?b = "b\<lparr>gameState_L := (gameState_L b)\<lparr>phase_L := GETTING_PROMPTS_L\<rparr>, allPrompts_L := fetched\<rparr>"
  from assms have *: "unit_draws rs" "2 \<le> length (players_L (gameState_L b))"
    "a0 = startTurnSetup rs (Idx 0) 1 fetched ?b"
    by (auto simp: launch_L_def startGame_def promptsResolved_L_def split: if_splits)
  from *(2) have "0 < length (players_L (gameState_L b))" by linarith
  then have "drawer_ok_L a0" by (simp add: * drawer_ok_L_iff)
  moreover have "choices_ok_L a0" unfolding *(3) using *(1) by (rule startTurnSetup_choices_ok) simp
  moreover have "guessers_ok_L a0" by (simp add: * guessers_ok_L_def)
  ultimately show ?thesis by (simp add: *)
qed

subsection \<open>Submitting a score\<close>

lemma submitScore_total:
  assumes "drawer_ok a"
  shows "\<exists>a' drawer. submitScore a = Inr a'
     \<and> at_index (players (gameState a)) (currentPlayerIndex (gameState a)) = Some drawer
     \<and> players (gameState a') =
         map (\<lambda>p. p\<lparr>score := score p + bonus (gameState a) (selectedGuesserIds a) drawer p\<rparr>) (players (gameState a))
     \<and> history (gameState a') = history (gameState a) @
          [\<lparr>playerName = name drawer, word_h = prompt_word (currentPrompt (gameState a)),
            wasCorrect = (selectedGuesserIds a \<noteq> {}),
            winners = map name (filter (\<lambda>p. id_of p \<in> selectedGuesserIds a) (players (gameState a)))\<rparr>]"
proof -
  from assms obtain drawer where "at_index (players (gameState a)) (currentPlayerIndex (gameState a)) = Some drawer"
    by (auto simp: drawer_ok_def)
  then show ?thesis by (simp add: submitScore_def Let_def)
qed

lemma distinct_map_nth:
  assumes "distinct (map f xs)" "k < length xs" "d < length xs" "f (xs ! k) = f (xs ! d)"
  shows "k = d"
  using nth_eq_iff_index_eq [of "map f xs" k d] assms by simp

lemma sel_excludes_drawer:
  assumes "guessers_ok a" "on_screen CONFIRM_SCORE a" "distinct (map id_of (players (gameState a)))"
    and "currentPlayerIndex (gameState a) = Idx d" "d < length (players (gameState a))"
  shows "id_of (players (gameState a) ! d) \<notin> selectedGuesserIds a"
proof
  assume "id_of (players (gameState a) ! d) \<in> selectedGuesserIds a"
  with assms(1,2,4) obtain k where k: "k < length (players (gameState a))" "k \<noteq> d"
    "id_of (players (gameState a) ! k) = id_of (players (gameState a) ! d)"
    by (auto simp: guessers_ok_def)
  from assms(3) k(1) assms(5) k(3) have "k = d" by (rule distinct_map_nth)
  with k(2) show False ..
qed

lemma submit_guesser:
  assumes ok: "drawer_ok a" "guessers_ok a" "on_screen CONFIRM_SCORE a"
    and dist: "distinct (map id_of (players (gameState a)))"
    and j: "j < length (players (gameState a))" "id_of (players (gameState a) ! j) \<in> selectedGuesserIds a"
  shows "\<exists>a'. fire SubmitScore a = Some a' \<and>
     score (players (gameState a') ! j) = score (players (gameState a) ! j) + base (gameState a)
        + (if 30 \<le> timer (gameState a) then 1 else 0)"
proof -
  from ok(1) obtain d where d: "currentPlayerIndex (gameState a) = Idx d" "d < length (players (gameState a))"
    by (auto simp: drawer_ok_iff)
  from submitScore_total [OF ok(1)] d obtain a' where a': "submitScore a = Inr a'"
    "players (gameState a') = map (\<lambda>p. p\<lparr>score := score p + bonus (gameState a) (selectedGuesserIds a) (players (gameState a) ! d) p\<rparr>) (players (gameState a))"
    by (auto simp: at_index_def)
  from sel_excludes_drawer [OF ok(2,3) dist d] j(2)
  have "id_of (players (gameState a) ! j) \<noteq> id_of (players (gameState a) ! d)" by auto
  with j(2) have "bonus (gameState a) (selectedGuesserIds a) (players (gameState a) ! d) (players (gameState a) ! j)
     = base (gameState a) + (if 30 \<le> timer (gameState a) then 1 else 0)"
    by (simp add: bonus_def isSpeedBonus_def SPEED_BONUS_THRESHOLD_def)
  with a' j(1) ok(3) show ?thesis by (simp add: opt_of_def)
qed

lemma submit_drawer:
  assumes ok: "drawer_ok a" "guessers_ok a" "on_screen CONFIRM_SCORE a"
    and dist: "distinct (map id_of (players (gameState a)))"
    and d: "currentPlayerIndex (gameState a) = Idx d"
  shows "\<exists>a'. fire SubmitScore a = Some a' \<and>
     score (players (gameState a') ! d) = score (players (gameState a) ! d)
        + (if selectedGuesserIds a \<noteq> {} then base (gameState a) else 0)"
proof -
  from ok(1) d have dl: "d < length (players (gameState a))"
    by (auto simp: drawer_ok_iff)
  from submitScore_total [OF ok(1)] d dl obtain a' where a': "submitScore a = Inr a'"
    "players (gameState a') = map (\<lambda>p. p\<lparr>score := score p + bonus (gameState a) (selectedGuesserIds a) (players (gameState a) ! d) p\<rparr>) (players (gameState a))"
    by (auto simp: at_index_def)
  from sel_excludes_drawer [OF ok(2,3) dist d dl]
  have "bonus (gameState a) (selectedGuesserIds a) (players (gameState a) ! d) (players (gameState a) ! d)
     = (if selectedGuesserIds a \<noteq> {} then base (gameState a) else 0)"
    by (simp add: bonus_def)
  with a' dl ok(3) show ?thesis by (simp add: opt_of_def)
qed

lemma match_inv:
  assumes "launch rs fetched b = Some a0" "run es a0 = Some a"
  shows "drawer_ok a \<and> pool_ok a \<and> choices_ok a \<and> guessers_ok a
    \<and> map id_of (players (gameState a)) = map id_of (players (gameState b))"
proof -
  from launch_inv [OF assms(1)] run_inv [OF assms(2)] run_frame [OF assms(2)]
  show ?thesis by simp
qed

lemma finalizeScore_total:
  assumes "drawer_ok_L a"
  shows "\<exists>a' drawer. finalizeScore a = Inr a'
     \<and> at_index (players_L (gameState_L a)) (currentPlayerIndex_L (gameState_L a)) = Some drawer
     \<and> players_L (gameState_L a') =
         map (\<lambda>p. p\<lparr>score := score p + scoreIncrease (gameState_L a) (selectedGuesserIds_L a) drawer p\<rparr>) (players_L (gameState_L a))
     \<and> history_L (gameState_L a') = history_L (gameState_L a) @
          [\<lparr>playerName = name drawer, word_h = prompt_word (currentPrompt_L (gameState_L a)),
            wasCorrect = (selectedGuesserIds_L a \<noteq> {}),
            winners = map name (filter (\<lambda>p. id_of p \<in> selectedGuesserIds_L a) (players_L (gameState_L a)))\<rparr>]"
proof -
  from assms obtain drawer where "at_index (players_L (gameState_L a)) (currentPlayerIndex_L (gameState_L a)) = Some drawer"
    by (auto simp: drawer_ok_L_def)
  then show ?thesis by (simp add: finalizeScore_def Let_def)
qed

lemma sel_excludes_drawer_L:
  assumes "guessers_ok_L a" "phase_L (gameState_L a) = CONFIRM_SCORE_L" "distinct (map id_of (players_L (gameState_L a)))"
    and "currentPlayerIndex_L (gameState_L a) = Idx d" "d < length (players_L (gameState_L a))"
  shows "id_of (players_L (gameState_L a) ! d) \<notin> selectedGuesserIds_L a"
proof
  assume "id_of (players_L (gameState_L a) ! d) \<in> selectedGuesserIds_L a"
  with assms(1,2,4) obtain k where k: "k < length (players_L (gameState_L a))" "k \<noteq> d"
    "id_of (players_L (gameState_L a) ! k) = id_of (players_L (gameState_L a) ! d)"
    by (auto simp: guessers_ok_L_def)
  from assms(3) k(1) assms(5) k(3) have "k = d" by (rule distinct_map_nth)
  with k(2) show False ..
qed

lemma finalize_guesser:
  assumes ok: "drawer_ok_L a" "guessers_ok_L a" "phase_L (gameState_L a) = CONFIRM_SCORE_L"
    and dist: "distinct (map id_of (players_L (gameState_L a)))"
    and j: "j < length (players_L (gameState_L a))" "id_of (players_L (gameState_L a) ! j) \<in> selectedGuesserIds_L a"
  shows "\<exists>a'. fire_L SubmitScore a = Some a' \<and>
     score (players_L (gameState_L a') ! j) = score (players_L (gameState_L a) ! j) + basePoints (gameState_L a)
        + (if 30 \<le> timer_L (gameState_L a) then 1 else 0)"
proof -
  from ok(1) obtain d where d: "currentPlayerIndex_L (gameState_L a) = Idx d" "d < length (players_L (gameState_L a))"
    by (auto simp: drawer_ok_L_iff)
  from finalizeScore_total [OF ok(1)] d obtain a' where a': "finalizeScore a = Inr a'"
    "players_L (gameState_L a') = map (\<lambda>p. p\<lparr>score := score p + scoreIncrease (gameState_L a) (selectedGuesserIds_L a) (players_L (gameState_L a) ! d) p\<rparr>) (players_L (gameState_L a))"
    by (auto simp: at_index_def)
  from sel_excludes_drawer_L [OF ok(2,3) dist d] j(2)
  have "id_of (players_L (gameState_L a) ! j) \<noteq> id_of (players_L (gameState_L a) ! d)" by auto
  with j(2) have "scoreIncrease (gameState_L a) (selectedGuesserIds_L a) (players_L (gameState_L a) ! d) (players_L (gameState_L a) ! j)
     = basePoints (gameState_L a) + (if 30 \<le> timer_L (gameState_L a) then 1 else 0)"
    by (simp add: scoreIncrease_def isSpeedBonus_L_def SPEED_BONUS_THRESHOLD_def)
  with a' j(1) ok(3) show ?thesis by (simp add: opt_of_def)
qed

lemma finalize_drawer:
  assumes ok: "drawer_ok_L a" "guessers_ok_L a" "phase_L (gameState_L a) = CONFIRM_SCORE_L"
    and dist: "distinct (map id_of (players_L (gameState_L a)))"
    and d: "currentPlayerIndex_L (gameState_L a) = Idx d"
  shows "\<exists>a'. fire_L SubmitScore a = Some a' \<and>
     score (players_L (gameState_L a') ! d) = score (players_L (gameState_L a) ! d)
        + (if selectedGuesserIds_L a \<noteq> {} then basePoints (gameState_L a) else 0)"
proof -
  from ok(1) d have dl: "d < length (players_L (gameState_L a))"
    by (auto simp: drawer_ok_L_iff)
  from finalizeScore_total [OF ok(1)] d dl obtain a' where a': "finalizeScore a = Inr a'"
    "players_L (gameState_L a') = map (\<lambda>p. p\<lparr>score := score p + scoreIncrease (gameState_L a) (selectedGuesserIds_L a) (players_L (gameState_L a) ! d) p\<rparr>) (players_L (gameState_L a))"
    by (auto simp: at_index_def)
  from sel_excludes_drawer_L [OF ok(2,3) dist d dl]
  have "scoreIncrease (gameState_L a) (selectedGuesserIds_L a) (players_L (gameState_L a) ! d) (players_L (gameState_L a) ! d)
     = (if selectedGuesserIds_L a \<noteq> {} then basePoints (gameState_L a) else 0)"
    by (simp add: scoreIncrease_def)
  with a' dl ok(3) show ?thesis by (simp add: opt_of_def)
qed

lemma match_L_inv:
  assumes "launch_L rs fetched b = Some a0" "run_L es a0 = Some a"
  shows "drawer_ok_L a \<and> choices_ok_L a \<and> guessers_ok_L a
    \<and> map id_of (players_L (gameState_L a)) = map id_of (players_L (gameState_L b))
    \<and> allPrompts_L a = fetched"
proof -
  from launch_L_inv [OF assms(1)] run_L_inv [OF assms(2)] run_L_frame [OF assms(2)]
  show ?thesis by simp
qed

subsection \<open>The timer while drawing\<close>

text \<open>
  In a started match the timer is at least 1 on the drawing screen, in both variants: the
  tick at 1 leaves the screen in the same update that sets the timer to 0.
\<close>

lemma fire_timer:
  assumes "fire e a = Some a'"
    and "subPhase (gameState a) \<in> {Some PRE_TURN, Some CHOOSE_PROMPT, Some DRAWING, Some CONFIRM_SCORE}
         \<longrightarrow> 1 \<le> timer (gameState a)"
  shows "subPhase (gameState a') \<in> {Some PRE_TURN, Some CHOOSE_PROMPT, Some DRAWING, Some CONFIRM_SCORE}
         \<longrightarrow> 1 \<le> timer (gameState a')"
proof (cases e)
  case Tick
  with assms(1) have t: "tick a = Inr a'" and d: "on_screen DRAWING a" by (simp_all add: opt_of_Some split: if_splits)
  show ?thesis
  proof (cases "timer (gameState a) \<le> 1")
    case True
    with t show ?thesis by (auto simp: tick_def Let_def split: option.splits)
  next
    case False
    with t show ?thesis by (auto simp: tick_def Let_def)
  qed
next
  case SkipTurn
  with assms(1) have "skipTurn a = Inr a'" by (simp add: opt_of_Some split: if_splits)
  from skipTurn_cases [OF this] show ?thesis by auto
next
  case SubmitScore
  with assms(1) have "submitScore a = Inr a'" by (simp add: opt_of_Some split: if_splits)
  from submitScore_cases [OF this] show ?thesis by auto
next
  case (NextTurn rs)
  with assms(1) have "a' = nextTurn rs a" by (simp split: if_splits)
  with nextTurn_cases [of rs a] show ?thesis by (auto simp: DEFAULT_TIME_def)
next
  case (NextRound rs)
  with assms(1) have "a' = nextRound rs a" by (simp split: if_splits)
  with nextRound_cases [of rs a] show ?thesis by (auto simp: DEFAULT_TIME_def)
qed (use assms in \<open>auto simp: plain_defs on_screen_def split: if_splits\<close>)

lemma run_timer:
  "run es a = Some a' \<Longrightarrow>
   (subPhase (gameState a) \<in> {Some PRE_TURN, Some CHOOSE_PROMPT, Some DRAWING, Some CONFIRM_SCORE}
         \<longrightarrow> 1 \<le> timer (gameState a)) \<Longrightarrow>
   (subPhase (gameState a') \<in> {Some PRE_TURN, Some CHOOSE_PROMPT, Some DRAWING, Some CONFIRM_SCORE}
         \<longrightarrow> 1 \<le> timer (gameState a'))"
proof (induction es arbitrary: a)
  case Nil
  then show ?case by simp
next
  case (Cons e es)
  from Cons.prems(1) obtain b where b: "fire e a = Some b" "run es b = Some a'"
    by (auto split: option.splits)
  from Cons.IH [OF b(2) fire_timer [OF b(1) Cons.prems(2)]] show ?case .
qed

lemma launch_timer:
  assumes "launch rs fetched b = Some a0"
  shows "timer (gameState a0) = 60"
  using assms
  by (auto simp: launch_def startMatch_def promptsResolved_def DEFAULT_TIME_def split: if_splits)

lemma drawing_timer_positive:
  assumes "launch rs fetched b = Some a0" "run es a0 = Some a" "subPhase (gameState a) = Some DRAWING"
  shows "1 \<le> timer (gameState a)"
  using run_timer [OF assms(2)] launch_timer [OF assms(1)] assms(3) by simp

lemma fire_L_timer:
  assumes "fire_L e a = Some a'"
    and "phase_L (gameState_L a) \<in> {PRE_TURN_L, CHOOSE_PROMPT_L, DRAWING_L, CONFIRM_SCORE_L}
         \<longrightarrow> 1 \<le> timer_L (gameState_L a)"
  shows "phase_L (gameState_L a') \<in> {PRE_TURN_L, CHOOSE_PROMPT_L, DRAWING_L, CONFIRM_SCORE_L}
         \<longrightarrow> 1 \<le> timer_L (gameState_L a')"
proof (cases e)
  case SubmitScore
  with assms(1) have "finalizeScore a = Inr a'" by (simp add: opt_of_Some split: if_splits)
  from finalizeScore_cases [OF this] show ?thesis by auto
next
  case (NextTurn rs)
  with assms(1) have "a' = handleNextTurn rs a" by (simp split: if_splits)
  with handleNextTurn_cases [of rs a] show ?thesis by (auto simp: DEFAULT_TIME_def)
next
  case (NextRound rs)
  with assms(1) have "a' = proceedFromRoundLeaderboard rs a" by (simp split: if_splits)
  with proceed_cases [of rs a] show ?thesis by (auto simp: DEFAULT_TIME_def)
qed (use assms in \<open>auto simp: plain_defs_L Let_def split: if_splits\<close>)

lemma run_L_timer:
  "run_L es a = Some a' \<Longrightarrow>
   (phase_L (gameState_L a) \<in> {PRE_TURN_L, CHOOSE_PROMPT_L, DRAWING_L, CONFIRM_SCORE_L}
         \<longrightarrow> 1 \<le> timer_L (gameState_L a)) \<Longrightarrow>
   (phase_L (gameState_L a') \<in> {PRE_TURN_L, CHOOSE_PROMPT_L, DRAWING_L, CONFIRM_SCORE_L}
         \<longrightarrow> 1 \<le> timer_L (gameState_L a'))"
proof (induction es arbitrary: a)
  case Nil
  then show ?case by simp
next
  case (Cons e es)
  from Cons.prems(1) obtain b where b: "fire_L e a = Some b" "run_L es b = Some a'"
    by (auto split: option.splits)
  from Cons.IH [OF b(2) fire_L_timer [OF b(1) Cons.prems(2)]] show ?case .
qed

lemma drawing_timer_positive_L:
  assumes "launch_L rs fetched b = Some a0" "run_L es a0 = Some a" "phase_L (gameState_L a) = DRAWING_L"
  shows "1 \<le> timer_L (gameState_L a)"
proof -
  from assms(1) have "timer_L (gameState_L a0) = 60"
    by (auto simp: launch_L_def startGame_def promptsResolved_L_def DEFAULT_TIME_def split: if_splits)
  with run_L_timer [OF assms(2)] assms(3) show ?thesis by simp
qed

subsection \<open>The example match, run\<close>

lemmas example_defs = alice_def bob_def cat_def robot_def gravity_def ice_cream_def home_def
  bee_def cow_def dog_def farm_def farm_home_def farm_turn_def farm_choosing_def
  first_turn_def ice_cream_L_def ox_L_def
  choosing_def drawing_def confirming_def scored_def
  cat_L_def robot_L_def gravity_L_def lobby_def first_turn_L_def choosing_L_def drawing_L_def
  confirming_L_def scored_L_def

lemma ex_launch: "launch (0, 0, 0) [cat, robot, gravity] home = Some first_turn"
  by (simp add: launch_def unit_draws_def startMatch_def promptsResolved_def setupTurn_def rnd_def
      DEFAULT_TIME_def example_defs)

lemma ex_run: "run [Ready, SelectPrompt 0, ConfirmSolved, ToggleGuesser 1] first_turn = Some confirming"
  by (simp add: on_screen_def ready_def selectPrompt_def confirmSolved_def toggleGuesser_def example_defs)

lemma ex_launch_L: "launch_L (0, 0, 0) [cat_L, robot_L, gravity_L] lobby = Some first_turn_L"
  by (simp add: launch_L_def unit_draws_def startGame_def promptsResolved_L_def startTurnSetup_def rnd_def
      DEFAULT_TIME_def example_defs)

lemma ex_run_L: "run_L [Ready, SelectPrompt 0, ConfirmSolved, ToggleGuesser 1] first_turn_L = Some confirming_L"
  by (simp add: ready_L_def choosePrompt_def enterScoringPhase_def toggleGuesser_L_def example_defs)

subsection \<open>How the choices are formed\<close>

















section \<open>The claims\<close>

text \<open>
  C1. For every turn confirmed via the scoring step: every player whose id is in
  \<^verbatim>\<open>selectedGuesserIds\<close> gains \<open>basePoints + 1\<close> when the timer at confirmation is at
  least 30, and exactly \<open>basePoints\<close> when it is below 30. A turn is confirmed on the
  \<^verbatim>\<open>CONFIRM_SCORE\<close> screen of a match that was started and played through the
  controls; the ids of the roster are distinct, as the data model has it. Both variants.
\<close>

theorem speed_bonus_award:
  "(launch rs fetched b = Some a0 \<longrightarrow> run es a0 = Some a \<longrightarrow> on_screen CONFIRM_SCORE a \<longrightarrow>
      distinct (map id_of (players (gameState b))) \<longrightarrow>
      j < length (players (gameState a)) \<longrightarrow>
      id_of (players (gameState a) ! j) \<in> selectedGuesserIds a \<longrightarrow>
      (\<exists>a'. fire SubmitScore a = Some a' \<and>
            score (players (gameState a') ! j)
            = score (players (gameState a) ! j) + base (gameState a)
              + (if 30 \<le> timer (gameState a) then 1 else 0)))
   \<and> (launch_L rs fetched_L b_L = Some a0_L \<longrightarrow> run_L es a0_L = Some a_L \<longrightarrow>
      phase_L (gameState_L a_L) = CONFIRM_SCORE_L \<longrightarrow>
      distinct (map id_of (players_L (gameState_L b_L))) \<longrightarrow>
      j < length (players_L (gameState_L a_L)) \<longrightarrow>
      id_of (players_L (gameState_L a_L) ! j) \<in> selectedGuesserIds_L a_L \<longrightarrow>
      (\<exists>a'. fire_L SubmitScore a_L = Some a' \<and>
            score (players_L (gameState_L a') ! j)
            = score (players_L (gameState_L a_L) ! j) + basePoints (gameState_L a_L)
              + (if 30 \<le> timer_L (gameState_L a_L) then 1 else 0)))"
proof (intro conjI impI)
  assume m: "launch rs fetched b = Some a0" "run es a0 = Some a"
    and c: "on_screen CONFIRM_SCORE a" and dist: "distinct (map id_of (players (gameState b)))"
    and j: "j < length (players (gameState a))" "id_of (players (gameState a) ! j) \<in> selectedGuesserIds a"
  from match_inv [OF m] dist have "drawer_ok a" "guessers_ok a" "distinct (map id_of (players (gameState a)))"
    by simp_all
  from submit_guesser [OF this(1,2) c this(3) j]
  show "\<exists>a'. fire SubmitScore a = Some a' \<and>
            score (players (gameState a') ! j)
            = score (players (gameState a) ! j) + base (gameState a)
              + (if 30 \<le> timer (gameState a) then 1 else 0)" .
next
  assume m: "launch_L rs fetched_L b_L = Some a0_L" "run_L es a0_L = Some a_L"
    and c: "phase_L (gameState_L a_L) = CONFIRM_SCORE_L"
    and dist: "distinct (map id_of (players_L (gameState_L b_L)))"
    and j: "j < length (players_L (gameState_L a_L))"
      "id_of (players_L (gameState_L a_L) ! j) \<in> selectedGuesserIds_L a_L"
  from match_L_inv [OF m] dist
  have "drawer_ok_L a_L" "guessers_ok_L a_L" "distinct (map id_of (players_L (gameState_L a_L)))"
    by simp_all
  from finalize_guesser [OF this(1,2) c this(3) j]
  show "\<exists>a'. fire_L SubmitScore a_L = Some a' \<and>
            score (players_L (gameState_L a') ! j)
            = score (players_L (gameState_L a_L) ! j) + basePoints (gameState_L a_L)
              + (if 30 \<le> timer_L (gameState_L a_L) then 1 else 0)" .
qed

text \<open>The example match: Bob guessed \<^verbatim>\<open>Cat\<close> with 60 seconds left and gains 2.\<close>

theorem speed_bonus_award_witness:
  "launch (0, 0, 0) [cat, robot, gravity] home = Some first_turn
   \<and> run [Ready, SelectPrompt 0, ConfirmSolved, ToggleGuesser 1] first_turn = Some confirming
   \<and> on_screen CONFIRM_SCORE confirming
   \<and> distinct (map id_of (players (gameState home)))
   \<and> 1 < length (players (gameState confirming))
   \<and> id_of (players (gameState confirming) ! 1) \<in> selectedGuesserIds confirming
   \<and> (\<exists>a'. fire SubmitScore confirming = Some a' \<and> score (players (gameState a') ! 1) = 2)
   \<and> launch_L (0, 0, 0) [cat_L, robot_L, gravity_L] lobby = Some first_turn_L
   \<and> run_L [Ready, SelectPrompt 0, ConfirmSolved, ToggleGuesser 1] first_turn_L = Some confirming_L
   \<and> phase_L (gameState_L confirming_L) = CONFIRM_SCORE_L
   \<and> distinct (map id_of (players_L (gameState_L lobby)))
   \<and> 1 < length (players_L (gameState_L confirming_L))
   \<and> id_of (players_L (gameState_L confirming_L) ! 1) \<in> selectedGuesserIds_L confirming_L
   \<and> (\<exists>a'. fire_L SubmitScore confirming_L = Some a' \<and> score (players_L (gameState_L a') ! 1) = 2)"
proof -
  have h: "on_screen CONFIRM_SCORE confirming" "distinct (map id_of (players (gameState home)))"
    "1 < length (players (gameState confirming))"
    "id_of (players (gameState confirming) ! 1) \<in> selectedGuesserIds confirming"
    by (simp_all add: on_screen_def example_defs)
  have h_L: "phase_L (gameState_L confirming_L) = CONFIRM_SCORE_L"
    "distinct (map id_of (players_L (gameState_L lobby)))"
    "1 < length (players_L (gameState_L confirming_L))"
    "id_of (players_L (gameState_L confirming_L) ! 1) \<in> selectedGuesserIds_L confirming_L"
    by (simp_all add: example_defs)
  have v: "score (players (gameState confirming) ! 1) + base (gameState confirming)
       + (if 30 \<le> timer (gameState confirming) then 1 else 0) = 2"
    by (simp add: base_def example_defs)
  have v_L: "score (players_L (gameState_L confirming_L) ! 1) + basePoints (gameState_L confirming_L)
       + (if 30 \<le> timer_L (gameState_L confirming_L) then 1 else 0) = 2"
    by (simp add: basePoints_def example_defs)
  from speed_bonus_award [of "(0, 0, 0)" "[cat, robot, gravity]" home first_turn
      "[Ready, SelectPrompt 0, ConfirmSolved, ToggleGuesser 1]" confirming 1
      "[cat_L, robot_L, gravity_L]" lobby first_turn_L confirming_L]
    ex_launch ex_run ex_launch_L ex_run_L h h_L v v_L
  show ?thesis by simp
qed

text \<open>
  C2. For every scored turn: the drawer's score increases if and only if
  \<^verbatim>\<open>selectedGuesserIds\<close> is non-empty, and then by exactly \<open>basePoints\<close>, whatever the
  timer. Scored turns as for C1; both variants.
\<close>

theorem drawer_reward:
  "(launch rs fetched b = Some a0 \<longrightarrow> run es a0 = Some a \<longrightarrow> on_screen CONFIRM_SCORE a \<longrightarrow>
      distinct (map id_of (players (gameState b))) \<longrightarrow>
      currentPlayerIndex (gameState a) = Idx d \<longrightarrow>
      (\<exists>a'. fire SubmitScore a = Some a'
         \<and> (score (players (gameState a) ! d) < score (players (gameState a') ! d)
              \<longleftrightarrow> selectedGuesserIds a \<noteq> {})
         \<and> (selectedGuesserIds a \<noteq> {} \<longrightarrow>
              score (players (gameState a') ! d)
              = score (players (gameState a) ! d) + base (gameState a))))
   \<and> (launch_L rs fetched_L b_L = Some a0_L \<longrightarrow> run_L es a0_L = Some a_L \<longrightarrow>
      phase_L (gameState_L a_L) = CONFIRM_SCORE_L \<longrightarrow>
      distinct (map id_of (players_L (gameState_L b_L))) \<longrightarrow>
      currentPlayerIndex_L (gameState_L a_L) = Idx d \<longrightarrow>
      (\<exists>a'. fire_L SubmitScore a_L = Some a'
         \<and> (score (players_L (gameState_L a_L) ! d) < score (players_L (gameState_L a') ! d)
              \<longleftrightarrow> selectedGuesserIds_L a_L \<noteq> {})
         \<and> (selectedGuesserIds_L a_L \<noteq> {} \<longrightarrow>
              score (players_L (gameState_L a') ! d)
              = score (players_L (gameState_L a_L) ! d) + basePoints (gameState_L a_L))))"
proof (intro conjI impI)
  assume m: "launch rs fetched b = Some a0" "run es a0 = Some a"
    and c: "on_screen CONFIRM_SCORE a" and dist: "distinct (map id_of (players (gameState b)))"
    and d: "currentPlayerIndex (gameState a) = Idx d"
  from match_inv [OF m] dist have "drawer_ok a" "guessers_ok a" "distinct (map id_of (players (gameState a)))"
    by simp_all
  from submit_drawer [OF this(1,2) c this(3) d] obtain a' where
    a': "fire SubmitScore a = Some a'"
      "score (players (gameState a') ! d) = score (players (gameState a) ! d)
        + (if selectedGuesserIds a \<noteq> {} then base (gameState a) else 0)"
    by blast
  from a'(2) base_pos [of "gameState a"]
  have "(score (players (gameState a) ! d) < score (players (gameState a') ! d)
              \<longleftrightarrow> selectedGuesserIds a \<noteq> {})
         \<and> (selectedGuesserIds a \<noteq> {} \<longrightarrow>
              score (players (gameState a') ! d)
              = score (players (gameState a) ! d) + base (gameState a))"
    by simp
  with a'(1) show "\<exists>a'. fire SubmitScore a = Some a'
         \<and> (score (players (gameState a) ! d) < score (players (gameState a') ! d)
              \<longleftrightarrow> selectedGuesserIds a \<noteq> {})
         \<and> (selectedGuesserIds a \<noteq> {} \<longrightarrow>
              score (players (gameState a') ! d)
              = score (players (gameState a) ! d) + base (gameState a))"
    by blast
next
  assume m: "launch_L rs fetched_L b_L = Some a0_L" "run_L es a0_L = Some a_L"
    and c: "phase_L (gameState_L a_L) = CONFIRM_SCORE_L"
    and dist: "distinct (map id_of (players_L (gameState_L b_L)))"
    and d: "currentPlayerIndex_L (gameState_L a_L) = Idx d"
  from match_L_inv [OF m] dist
  have "drawer_ok_L a_L" "guessers_ok_L a_L" "distinct (map id_of (players_L (gameState_L a_L)))"
    by simp_all
  from finalize_drawer [OF this(1,2) c this(3) d] obtain a' where
    a': "fire_L SubmitScore a_L = Some a'"
      "score (players_L (gameState_L a') ! d) = score (players_L (gameState_L a_L) ! d)
        + (if selectedGuesserIds_L a_L \<noteq> {} then basePoints (gameState_L a_L) else 0)"
    by blast
  from a'(2) basePoints_pos [of "gameState_L a_L"]
  have "(score (players_L (gameState_L a_L) ! d) < score (players_L (gameState_L a') ! d)
              \<longleftrightarrow> selectedGuesserIds_L a_L \<noteq> {})
         \<and> (selectedGuesserIds_L a_L \<noteq> {} \<longrightarrow>
              score (players_L (gameState_L a') ! d)
              = score (players_L (gameState_L a_L) ! d) + basePoints (gameState_L a_L))"
    by simp
  with a'(1) show "\<exists>a'. fire_L SubmitScore a_L = Some a'
         \<and> (score (players_L (gameState_L a_L) ! d) < score (players_L (gameState_L a') ! d)
              \<longleftrightarrow> selectedGuesserIds_L a_L \<noteq> {})
         \<and> (selectedGuesserIds_L a_L \<noteq> {} \<longrightarrow>
              score (players_L (gameState_L a') ! d)
              = score (players_L (gameState_L a_L) ! d) + basePoints (gameState_L a_L))"
    by blast
qed

text \<open>The example match: Alice drew \<^verbatim>\<open>Cat\<close>, Bob guessed it, and Alice gains 1.\<close>

theorem drawer_reward_witness:
  "launch (0, 0, 0) [cat, robot, gravity] home = Some first_turn
   \<and> run [Ready, SelectPrompt 0, ConfirmSolved, ToggleGuesser 1] first_turn = Some confirming
   \<and> on_screen CONFIRM_SCORE confirming
   \<and> distinct (map id_of (players (gameState home)))
   \<and> currentPlayerIndex (gameState confirming) = Idx 0
   \<and> selectedGuesserIds confirming \<noteq> {}
   \<and> (\<exists>a'. fire SubmitScore confirming = Some a' \<and> score (players (gameState a') ! 0) = 1)
   \<and> launch_L (0, 0, 0) [cat_L, robot_L, gravity_L] lobby = Some first_turn_L
   \<and> run_L [Ready, SelectPrompt 0, ConfirmSolved, ToggleGuesser 1] first_turn_L = Some confirming_L
   \<and> phase_L (gameState_L confirming_L) = CONFIRM_SCORE_L
   \<and> distinct (map id_of (players_L (gameState_L lobby)))
   \<and> currentPlayerIndex_L (gameState_L confirming_L) = Idx 0
   \<and> selectedGuesserIds_L confirming_L \<noteq> {}
   \<and> (\<exists>a'. fire_L SubmitScore confirming_L = Some a' \<and> score (players_L (gameState_L a') ! 0) = 1)"
proof -
  have h: "on_screen CONFIRM_SCORE confirming" "distinct (map id_of (players (gameState home)))"
    "currentPlayerIndex (gameState confirming) = Idx 0" "selectedGuesserIds confirming \<noteq> {}"
    by (simp_all add: on_screen_def example_defs)
  have h_L: "phase_L (gameState_L confirming_L) = CONFIRM_SCORE_L"
    "distinct (map id_of (players_L (gameState_L lobby)))"
    "currentPlayerIndex_L (gameState_L confirming_L) = Idx 0" "selectedGuesserIds_L confirming_L \<noteq> {}"
    by (simp_all add: example_defs)
  have v: "score (players (gameState confirming) ! 0) + base (gameState confirming) = 1"
    by (simp add: base_def example_defs)
  have v_L: "score (players_L (gameState_L confirming_L) ! 0) + basePoints (gameState_L confirming_L) = 1"
    by (simp add: basePoints_def example_defs)
  from drawer_reward [THEN conjunct1, rule_format, OF ex_launch ex_run h(1,2,3)] h(4) v
  have A: "\<exists>a'. fire SubmitScore confirming = Some a' \<and> score (players (gameState a') ! 0) = 1"
    by (auto simp del: fire.simps)
  from drawer_reward [THEN conjunct2, rule_format, OF ex_launch_L ex_run_L h_L(1,2,3)] h_L(4) v_L
  have B: "\<exists>a'. fire_L SubmitScore confirming_L = Some a' \<and> score (players_L (gameState_L a') ! 0) = 1"
    by (auto simp del: fire_L.simps)
  from ex_launch ex_run ex_launch_L ex_run_L h h_L A B show ?thesis by blast
qed

text \<open>
  C10. \<^verbatim>\<open>submitScore\<close> and \<^verbatim>\<open>finalizeScore\<close> do not take the drawer out of the guesser
  set: in a state where the drawer's own id is selected, the drawer gains twice
  \<open>basePoints\<close>, one more with the speed bonus, and the drawer's name is among the winners
  of the history entry.
\<close>

theorem drawer_in_guessers_scores_twice:
  "(currentPlayerIndex (gameState a) = Idx d \<longrightarrow> d < length (players (gameState a)) \<longrightarrow>
      id_of (players (gameState a) ! d) \<in> selectedGuesserIds a \<longrightarrow>
      (\<exists>a'. submitScore a = Inr a'
         \<and> score (players (gameState a') ! d)
           = score (players (gameState a) ! d) + 2 * base (gameState a)
             + (if 30 \<le> timer (gameState a) then 1 else 0)
         \<and> name (players (gameState a) ! d) \<in> set (winners (last (history (gameState a'))))))
   \<and> (currentPlayerIndex_L (gameState_L a_L) = Idx d \<longrightarrow> d < length (players_L (gameState_L a_L)) \<longrightarrow>
      id_of (players_L (gameState_L a_L) ! d) \<in> selectedGuesserIds_L a_L \<longrightarrow>
      (\<exists>a'. finalizeScore a_L = Inr a'
         \<and> score (players_L (gameState_L a') ! d)
           = score (players_L (gameState_L a_L) ! d) + 2 * basePoints (gameState_L a_L)
             + (if 30 \<le> timer_L (gameState_L a_L) then 1 else 0)
         \<and> name (players_L (gameState_L a_L) ! d) \<in> set (winners (last (history_L (gameState_L a'))))))"
proof (intro conjI impI)
  assume d: "currentPlayerIndex (gameState a) = Idx d" "d < length (players (gameState a))"
    and sel: "id_of (players (gameState a) ! d) \<in> selectedGuesserIds a"
  from d have "drawer_ok a" by (auto simp: drawer_ok_iff)
  from submitScore_total [OF this] d obtain a' where a': "submitScore a = Inr a'"
    "players (gameState a') = map (\<lambda>p. p\<lparr>score := score p + bonus (gameState a) (selectedGuesserIds a) (players (gameState a) ! d) p\<rparr>) (players (gameState a))"
    "history (gameState a') = history (gameState a) @
          [\<lparr>playerName = name (players (gameState a) ! d), word_h = prompt_word (currentPrompt (gameState a)),
            wasCorrect = (selectedGuesserIds a \<noteq> {}),
            winners = map name (filter (\<lambda>p. id_of p \<in> selectedGuesserIds a) (players (gameState a)))\<rparr>]"
    by (auto simp: at_index_def)
  from sel have "bonus (gameState a) (selectedGuesserIds a) (players (gameState a) ! d) (players (gameState a) ! d)
      = 2 * base (gameState a) + (if 30 \<le> timer (gameState a) then 1 else 0)"
    by (auto simp: bonus_def isSpeedBonus_def SPEED_BONUS_THRESHOLD_def)
  with a'(2) d(2) have s: "score (players (gameState a') ! d)
           = score (players (gameState a) ! d) + 2 * base (gameState a)
             + (if 30 \<le> timer (gameState a) then 1 else 0)"
    by simp
  from d(2) have "players (gameState a) ! d \<in> set (players (gameState a))" by simp
  with sel have "name (players (gameState a) ! d) \<in> set (winners (last (history (gameState a'))))"
    by (auto simp: a'(3))
  with a'(1) s show "\<exists>a'. submitScore a = Inr a'
         \<and> score (players (gameState a') ! d)
           = score (players (gameState a) ! d) + 2 * base (gameState a)
             + (if 30 \<le> timer (gameState a) then 1 else 0)
         \<and> name (players (gameState a) ! d) \<in> set (winners (last (history (gameState a'))))"
    by blast
next
  assume d: "currentPlayerIndex_L (gameState_L a_L) = Idx d" "d < length (players_L (gameState_L a_L))"
    and sel: "id_of (players_L (gameState_L a_L) ! d) \<in> selectedGuesserIds_L a_L"
  from d have "drawer_ok_L a_L" by (auto simp: drawer_ok_L_iff)
  from finalizeScore_total [OF this] d obtain a' where a': "finalizeScore a_L = Inr a'"
    "players_L (gameState_L a') = map (\<lambda>p. p\<lparr>score := score p + scoreIncrease (gameState_L a_L) (selectedGuesserIds_L a_L) (players_L (gameState_L a_L) ! d) p\<rparr>) (players_L (gameState_L a_L))"
    "history_L (gameState_L a') = history_L (gameState_L a_L) @
          [\<lparr>playerName = name (players_L (gameState_L a_L) ! d), word_h = prompt_word (currentPrompt_L (gameState_L a_L)),
            wasCorrect = (selectedGuesserIds_L a_L \<noteq> {}),
            winners = map name (filter (\<lambda>p. id_of p \<in> selectedGuesserIds_L a_L) (players_L (gameState_L a_L)))\<rparr>]"
    by (auto simp: at_index_def)
  from sel have "scoreIncrease (gameState_L a_L) (selectedGuesserIds_L a_L) (players_L (gameState_L a_L) ! d) (players_L (gameState_L a_L) ! d)
      = 2 * basePoints (gameState_L a_L) + (if 30 \<le> timer_L (gameState_L a_L) then 1 else 0)"
    by (auto simp: scoreIncrease_def isSpeedBonus_L_def SPEED_BONUS_THRESHOLD_def)
  with a'(2) d(2) have s: "score (players_L (gameState_L a') ! d)
           = score (players_L (gameState_L a_L) ! d) + 2 * basePoints (gameState_L a_L)
             + (if 30 \<le> timer_L (gameState_L a_L) then 1 else 0)"
    by simp
  from d(2) have "players_L (gameState_L a_L) ! d \<in> set (players_L (gameState_L a_L))" by simp
  with sel have "name (players_L (gameState_L a_L) ! d) \<in> set (winners (last (history_L (gameState_L a'))))"
    by (auto simp: a'(3))
  with a'(1) s show "\<exists>a'. finalizeScore a_L = Inr a'
         \<and> score (players_L (gameState_L a') ! d)
           = score (players_L (gameState_L a_L) ! d) + 2 * basePoints (gameState_L a_L)
             + (if 30 \<le> timer_L (gameState_L a_L) then 1 else 0)
         \<and> name (players_L (gameState_L a_L) ! d) \<in> set (winners (last (history_L (gameState_L a'))))"
    by blast
qed

text \<open>
  The confirming state of the example with Alice's own id put into the set: she gains
  \<open>2 * 1 + 1\<close> and is listed as a winner.
\<close>

theorem drawer_in_guessers_scores_twice_witness:
  "currentPlayerIndex (gameState (confirming\<lparr>selectedGuesserIds := {''p1''}\<rparr>)) = Idx 0
   \<and> 0 < length (players (gameState (confirming\<lparr>selectedGuesserIds := {''p1''}\<rparr>)))
   \<and> id_of (players (gameState (confirming\<lparr>selectedGuesserIds := {''p1''}\<rparr>)) ! 0)
       \<in> selectedGuesserIds (confirming\<lparr>selectedGuesserIds := {''p1''}\<rparr>)
   \<and> (\<exists>a'. submitScore (confirming\<lparr>selectedGuesserIds := {''p1''}\<rparr>) = Inr a'
         \<and> score (players (gameState a') ! 0) = 3
         \<and> ''Alice'' \<in> set (winners (last (history (gameState a')))))
   \<and> currentPlayerIndex_L (gameState_L (confirming_L\<lparr>selectedGuesserIds_L := {''p1''}\<rparr>)) = Idx 0
   \<and> 0 < length (players_L (gameState_L (confirming_L\<lparr>selectedGuesserIds_L := {''p1''}\<rparr>)))
   \<and> id_of (players_L (gameState_L (confirming_L\<lparr>selectedGuesserIds_L := {''p1''}\<rparr>)) ! 0)
       \<in> selectedGuesserIds_L (confirming_L\<lparr>selectedGuesserIds_L := {''p1''}\<rparr>)
   \<and> (\<exists>a'. finalizeScore (confirming_L\<lparr>selectedGuesserIds_L := {''p1''}\<rparr>) = Inr a'
         \<and> score (players_L (gameState_L a') ! 0) = 3
         \<and> ''Alice'' \<in> set (winners (last (history_L (gameState_L a')))))"
proof -
  let ?a = "confirming\<lparr>selectedGuesserIds := {''p1''}\<rparr>"
  let ?a_L = "confirming_L\<lparr>selectedGuesserIds_L := {''p1''}\<rparr>"
  have h: "currentPlayerIndex (gameState ?a) = Idx 0" "0 < length (players (gameState ?a))"
    "id_of (players (gameState ?a) ! 0) \<in> selectedGuesserIds ?a"
    "name (players (gameState ?a) ! 0) = ''Alice''"
    "score (players (gameState ?a) ! 0) + 2 * base (gameState ?a)
       + (if 30 \<le> timer (gameState ?a) then 1 else 0) = 3"
    by (simp_all add: base_def example_defs)
  have h_L: "currentPlayerIndex_L (gameState_L ?a_L) = Idx 0" "0 < length (players_L (gameState_L ?a_L))"
    "id_of (players_L (gameState_L ?a_L) ! 0) \<in> selectedGuesserIds_L ?a_L"
    "name (players_L (gameState_L ?a_L) ! 0) = ''Alice''"
    "score (players_L (gameState_L ?a_L) ! 0) + 2 * basePoints (gameState_L ?a_L)
       + (if 30 \<le> timer_L (gameState_L ?a_L) then 1 else 0) = 3"
    by (simp_all add: basePoints_def example_defs)
  from drawer_in_guessers_scores_twice [of ?a 0 ?a_L] h h_L
  show ?thesis by simp
qed



lemma ex_scored:
  "run [Ready, SelectPrompt 0, ConfirmSolved, ToggleGuesser 1, SubmitScore] first_turn = Some scored"
  by (simp add: on_screen_def ready_def selectPrompt_def confirmSolved_def toggleGuesser_def
      submitScore_def at_index_def opt_of_def bonus_def base_def isSpeedBonus_def
      SPEED_BONUS_THRESHOLD_def prompt_word_def example_defs)

lemma ex_scored_L:
  "run_L [Ready, SelectPrompt 0, ConfirmSolved, ToggleGuesser 1, SubmitScore] first_turn_L = Some scored_L"
  by (simp add: ready_L_def choosePrompt_def enterScoringPhase_def toggleGuesser_L_def
      finalizeScore_def at_index_def opt_of_def scoreIncrease_def basePoints_def isSpeedBonus_L_def
      SPEED_BONUS_THRESHOLD_def prompt_word_def example_defs)




text \<open>
  C8. Across every sequence of transitions of a match no player's score decreases: after
  any run of controls the roster holds the same players in the same order, each with a
  score at least as large as before. Both variants.
\<close>

theorem scores_never_decrease:
  "(run es a = Some a' \<longrightarrow>
      list_all2 (\<lambda>p q. id_of q = id_of p \<and> score p \<le> score q)
        (players (gameState a)) (players (gameState a')))
   \<and> (run_L es a_L = Some a_L' \<longrightarrow>
      list_all2 (\<lambda>p q. id_of q = id_of p \<and> score p \<le> score q)
        (players_L (gameState_L a_L)) (players_L (gameState_L a_L')))"
  using run_mono [of es a a'] run_L_mono [of es a_L a_L'] by blast

text \<open>The first turn of the example match, played to its score: Alice 1, Bob 2.\<close>

theorem scores_never_decrease_witness:
  "run [Ready, SelectPrompt 0, ConfirmSolved, ToggleGuesser 1, SubmitScore] first_turn = Some scored
   \<and> list_all2 (\<lambda>p q. id_of q = id_of p \<and> score p \<le> score q)
        (players (gameState first_turn)) (players (gameState scored))
   \<and> run_L [Ready, SelectPrompt 0, ConfirmSolved, ToggleGuesser 1, SubmitScore] first_turn_L
       = Some scored_L
   \<and> list_all2 (\<lambda>p q. id_of q = id_of p \<and> score p \<le> score q)
        (players_L (gameState_L first_turn_L)) (players_L (gameState_L scored_L))"
  using scores_never_decrease [THEN conjunct1, rule_format, OF ex_scored]
    scores_never_decrease [THEN conjunct2, rule_format, OF ex_scored_L]
    ex_scored ex_scored_L
  by blast

text \<open>
  C7. With at least two players, advancing from the post-turn screen at the last player
  index leads to the round leaderboard (so not to \<^verbatim>\<open>PRE_TURN\<close>) and changes nothing else;
  proceeding from the round leaderboard when the round equals \<^verbatim>\<open>maxRounds\<close> ends the game
  and leaves the round counter as it is. Both variants.
\<close>

theorem round_wrap_and_game_over:
  "(2 \<le> length (players (gameState a)) \<longrightarrow>
      currentPlayerIndex (gameState a) = Idx (length (players (gameState a)) - 1) \<longrightarrow>
      nextTurn rs a = a\<lparr>gameState := (gameState a)\<lparr>subPhase := Some ROUND_LEADERBOARD\<rparr>\<rparr>)
   \<and> (rounds (gameState a) = maxRounds (gameState a) \<longrightarrow>
      nextRound rs a = a\<lparr>gameState := (gameState a)\<lparr>phase := GAME_OVER, subPhase := None\<rparr>\<rparr>
      \<and> rounds (gameState (nextRound rs a)) = rounds (gameState a))
   \<and> (2 \<le> length (players_L (gameState_L a_L)) \<longrightarrow>
      currentPlayerIndex_L (gameState_L a_L) = Idx (length (players_L (gameState_L a_L)) - 1) \<longrightarrow>
      handleNextTurn rs a_L = a_L\<lparr>gameState_L := (gameState_L a_L)\<lparr>phase_L := ROUND_LEADERBOARD_L\<rparr>\<rparr>)
   \<and> (rounds_L (gameState_L a_L) = maxRounds_L (gameState_L a_L) \<longrightarrow>
      proceedFromRoundLeaderboard rs a_L = a_L\<lparr>gameState_L := (gameState_L a_L)\<lparr>phase_L := GAME_OVER_L\<rparr>\<rparr>
      \<and> rounds_L (gameState_L (proceedFromRoundLeaderboard rs a_L)) = rounds_L (gameState_L a_L))"
  by (auto simp: nextTurn_def nextRound_def handleNextTurn_def proceedFromRoundLeaderboard_def
      next_index_def Let_def)

text \<open>
  Bob, the last of two players, has drawn in the fifth of five rounds: the leaderboard
  follows, and then the end of the game in round five.
\<close>

theorem round_wrap_and_game_over_witness:
  "2 \<le> length (players (gameState scored))
   \<and> subPhase (gameState (nextTurn (0, 0, 0)
         (scored\<lparr>gameState := (gameState scored)\<lparr>currentPlayerIndex := Idx 1, rounds := 5\<rparr>\<rparr>)))
       = Some ROUND_LEADERBOARD
   \<and> phase (gameState (nextRound (0, 0, 0)
         (scored\<lparr>gameState := (gameState scored)\<lparr>currentPlayerIndex := Idx 1, rounds := 5\<rparr>\<rparr>)))
       = GAME_OVER
   \<and> rounds (gameState (nextRound (0, 0, 0)
         (scored\<lparr>gameState := (gameState scored)\<lparr>currentPlayerIndex := Idx 1, rounds := 5\<rparr>\<rparr>))) = 5
   \<and> 2 \<le> length (players_L (gameState_L scored_L))
   \<and> phase_L (gameState_L (handleNextTurn (0, 0, 0)
         (scored_L\<lparr>gameState_L := (gameState_L scored_L)\<lparr>currentPlayerIndex_L := Idx 1, rounds_L := 5\<rparr>\<rparr>)))
       = ROUND_LEADERBOARD_L
   \<and> phase_L (gameState_L (proceedFromRoundLeaderboard (0, 0, 0)
         (scored_L\<lparr>gameState_L := (gameState_L scored_L)\<lparr>currentPlayerIndex_L := Idx 1, rounds_L := 5\<rparr>\<rparr>)))
       = GAME_OVER_L
   \<and> rounds_L (gameState_L (proceedFromRoundLeaderboard (0, 0, 0)
         (scored_L\<lparr>gameState_L := (gameState_L scored_L)\<lparr>currentPlayerIndex_L := Idx 1, rounds_L := 5\<rparr>\<rparr>))) = 5"
proof -
  let ?a = "scored\<lparr>gameState := (gameState scored)\<lparr>currentPlayerIndex := Idx 1, rounds := 5\<rparr>\<rparr>"
  let ?a_L = "scored_L\<lparr>gameState_L := (gameState_L scored_L)\<lparr>currentPlayerIndex_L := Idx 1, rounds_L := 5\<rparr>\<rparr>"
  have h: "2 \<le> length (players (gameState ?a))"
    "currentPlayerIndex (gameState ?a) = Idx (length (players (gameState ?a)) - 1)"
    "rounds (gameState ?a) = maxRounds (gameState ?a)" "rounds (gameState ?a) = 5"
    "2 \<le> length (players (gameState scored))"
    by (simp_all add: example_defs)
  have h_L: "2 \<le> length (players_L (gameState_L ?a_L))"
    "currentPlayerIndex_L (gameState_L ?a_L) = Idx (length (players_L (gameState_L ?a_L)) - 1)"
    "rounds_L (gameState_L ?a_L) = maxRounds_L (gameState_L ?a_L)" "rounds_L (gameState_L ?a_L) = 5"
    "2 \<le> length (players_L (gameState_L scored_L))"
    by (simp_all add: example_defs)
  note T = round_wrap_and_game_over [of ?a "(0, 0, 0)" ?a_L]
  from T h(1,2) have 1: "subPhase (gameState (nextTurn (0, 0, 0) ?a)) = Some ROUND_LEADERBOARD"
    by simp
  from T h(3) have 2: "phase (gameState (nextRound (0, 0, 0) ?a)) = GAME_OVER"
    "rounds (gameState (nextRound (0, 0, 0) ?a)) = rounds (gameState ?a)"
    by simp_all
  from T h_L(1,2) have 3: "phase_L (gameState_L (handleNextTurn (0, 0, 0) ?a_L)) = ROUND_LEADERBOARD_L"
    by simp
  from T h_L(3) have 4: "phase_L (gameState_L (proceedFromRoundLeaderboard (0, 0, 0) ?a_L)) = GAME_OVER_L"
    "rounds_L (gameState_L (proceedFromRoundLeaderboard (0, 0, 0) ?a_L)) = rounds_L (gameState_L ?a_L)"
    by simp_all
  from 1 2 3 4 h(4,5) h_L(4,5) show ?thesis by simp
qed

text \<open>
  C9. With fewer than two players the start-match operation does nothing: it returns the
  state it was given, whole, and causes no effect (no prompt request, no alert). Both
  variants.
\<close>

theorem start_refused_below_two_players:
  "(length (players (gameState a)) < 2 \<longrightarrow> startMatch rs a = (a, []))
   \<and> (length (players_L (gameState_L a_L)) < 2 \<longrightarrow> startGame a_L = (a_L, []))"
  by (simp add: startMatch_def startGame_def)

text \<open>Alice alone on the start screen.\<close>

theorem start_refused_below_two_players_witness:
  "length (players (gameState (home\<lparr>gameState := (gameState home)\<lparr>players := [alice]\<rparr>\<rparr>))) < 2
   \<and> startMatch (0, 0, 0) (home\<lparr>gameState := (gameState home)\<lparr>players := [alice]\<rparr>\<rparr>)
       = (home\<lparr>gameState := (gameState home)\<lparr>players := [alice]\<rparr>\<rparr>, [])
   \<and> length (players_L (gameState_L (lobby\<lparr>gameState_L := (gameState_L lobby)\<lparr>players_L := [alice]\<rparr>\<rparr>))) < 2
   \<and> startGame (lobby\<lparr>gameState_L := (gameState_L lobby)\<lparr>players_L := [alice]\<rparr>\<rparr>)
       = (lobby\<lparr>gameState_L := (gameState_L lobby)\<lparr>players_L := [alice]\<rparr>\<rparr>, [])"
proof -
  let ?a = "home\<lparr>gameState := (gameState home)\<lparr>players := [alice]\<rparr>\<rparr>"
  let ?a_L = "lobby\<lparr>gameState_L := (gameState_L lobby)\<lparr>players_L := [alice]\<rparr>\<rparr>"
  have h: "length (players (gameState ?a)) < 2" "length (players_L (gameState_L ?a_L)) < 2"
    by simp_all
  from start_refused_below_two_players [of ?a "(0, 0, 0)" ?a_L] h show ?thesis by blast
qed

lemma ticks_L:
  "1 \<le> t \<Longrightarrow> run_L (replicate k Tick @ es) (drawing_L (t + int k)) = run_L es (drawing_L t)"
proof (induction k)
  case 0
  then show ?case by simp
next
  case (Suc k)
  from Suc.prems have "fire_L Tick (drawing_L (t + int (Suc k))) = Some (drawing_L (t + int k))"
    by (simp add: tick_L_def drawing_L_def)
  with Suc show ?case by simp
qed

text \<open>
  C3. A timeout and a skip each append a history entry with \<^verbatim>\<open>wasCorrect = false\<close> and no
  winners, change no score and lead to the post-turn screen. \<^verbatim>\<open>src/App.tsx\<close> does so;
  \<^verbatim>\<open>part_000\<close> appends nothing. Bob's turn, the second of the example match, after Alice's
  solved one: in \<^verbatim>\<open>part_000\<close> the history still ends with Alice's entry after the timeout
  and after the surrender, and the post-turn screen announces a point.
\<close>

theorem timeout_and_surrender_append_nothing_L:
  "history_L (gameState_L (tick_L (scored_L\<lparr>gameState_L := (gameState_L scored_L)
       \<lparr>currentPlayerIndex_L := Idx 1, currentPrompt_L := Some robot_L, phase_L := DRAWING_L,
        timer_L := 1\<rparr>\<rparr>)))
     = history_L (gameState_L scored_L)
   \<and> phase_L (gameState_L (tick_L (scored_L\<lparr>gameState_L := (gameState_L scored_L)
       \<lparr>currentPlayerIndex_L := Idx 1, currentPrompt_L := Some robot_L, phase_L := DRAWING_L,
        timer_L := 1\<rparr>\<rparr>))) = POST_TURN_L
   \<and> renderPostTurn_heading (gameState_L (tick_L (scored_L\<lparr>gameState_L := (gameState_L scored_L)
       \<lparr>currentPlayerIndex_L := Idx 1, currentPrompt_L := Some robot_L, phase_L := DRAWING_L,
        timer_L := 1\<rparr>\<rparr>))) = ''Point Awarded!''
   \<and> history_L (gameState_L (surrenderTurn (scored_L\<lparr>gameState_L := (gameState_L scored_L)
       \<lparr>currentPlayerIndex_L := Idx 1, currentPrompt_L := Some robot_L, phase_L := DRAWING_L,
        timer_L := 37\<rparr>\<rparr>)))
     = history_L (gameState_L scored_L)
   \<and> phase_L (gameState_L (surrenderTurn (scored_L\<lparr>gameState_L := (gameState_L scored_L)
       \<lparr>currentPlayerIndex_L := Idx 1, currentPrompt_L := Some robot_L, phase_L := DRAWING_L,
        timer_L := 37\<rparr>\<rparr>))) = POST_TURN_L
   \<and> length (history_L (gameState_L scored_L)) = 1
   \<and> (\<exists>a'. tick (scored\<lparr>gameState := (gameState scored)
         \<lparr>currentPlayerIndex := Idx 1, currentPrompt := Some robot, subPhase := Some DRAWING,
          timer := 1\<rparr>\<rparr>) = Inr a'
        \<and> history (gameState a') = history (gameState scored) @
             [\<lparr>playerName = ''Bob'', word_h = ''Robot'', wasCorrect = False, winners = []\<rparr>]
        \<and> players (gameState a') = players (gameState scored)
        \<and> subPhase (gameState a') = Some POST_TURN)
   \<and> (\<exists>a'. skipTurn (scored\<lparr>gameState := (gameState scored)
         \<lparr>currentPlayerIndex := Idx 1, currentPrompt := Some robot, subPhase := Some DRAWING,
          timer := 37\<rparr>\<rparr>) = Inr a'
        \<and> history (gameState a') = history (gameState scored) @
             [\<lparr>playerName = ''Bob'', word_h = ''Robot'', wasCorrect = False, winners = []\<rparr>]
        \<and> players (gameState a') = players (gameState scored)
        \<and> subPhase (gameState a') = Some POST_TURN)"
  by (simp add: tick_L_def surrenderTurn_def renderPostTurn_heading_def tick_def skipTurn_def
      at_index_def prompt_word_def example_defs)

text \<open>
  C6. The tick that brings the timer to 0 sets the timer, appends the timeout entry and
  leaves the drawing phase in one update. In \<^verbatim>\<open>part_000\<close> the first turn of the example
  match, left to run out, ends on the post-turn screen with the timer at 0 and an empty
  history; the last tick of \<^verbatim>\<open>src/App.tsx\<close> appends the entry.
\<close>

theorem timeout_tick_appends_nothing_L:
  "run_L ([Ready, SelectPrompt 0] @ replicate 59 Tick @ [Tick]) first_turn_L
     = Some ((drawing_L 0)\<lparr>gameState_L := (gameState_L (drawing_L 0))\<lparr>phase_L := POST_TURN_L\<rparr>\<rparr>)
   \<and> history_L (gameState_L ((drawing_L 0)\<lparr>gameState_L := (gameState_L (drawing_L 0))
        \<lparr>phase_L := POST_TURN_L\<rparr>\<rparr>)) = []
   \<and> tick (drawing 1)
     = Inr ((drawing 0)\<lparr>gameState := (gameState (drawing 0))
          \<lparr>history := [\<lparr>playerName = ''Alice'', word_h = ''Cat'', wasCorrect = False, winners = []\<rparr>],
           subPhase := Some POST_TURN\<rparr>\<rparr>)"
proof -
  have 1: "run_L [Ready, SelectPrompt 0] first_turn_L = Some (drawing_L 60)"
    by (simp add: ready_L_def choosePrompt_def example_defs)
  have "run_L (replicate 59 Tick @ [Tick]) (drawing_L (1 + int 59)) = run_L [Tick] (drawing_L 1)"
    by (rule ticks_L) simp
  then have 2: "run_L (replicate 59 Tick @ [Tick]) (drawing_L 60) = run_L [Tick] (drawing_L 1)"
    by simp
  have 3: "run_L [Tick] (drawing_L 1)
     = Some ((drawing_L 0)\<lparr>gameState_L := (gameState_L (drawing_L 0))\<lparr>phase_L := POST_TURN_L\<rparr>\<rparr>)"
    by (simp add: tick_L_def example_defs)
  have run_app: "run_L (xs @ ys) s = (case run_L xs s of None \<Rightarrow> None | Some s' \<Rightarrow> run_L ys s')"
    for xs ys s
    by (induction xs arbitrary: s) (auto split: option.splits)
  from 1 2 3 have "run_L ([Ready, SelectPrompt 0] @ replicate 59 Tick @ [Tick]) first_turn_L
     = Some ((drawing_L 0)\<lparr>gameState_L := (gameState_L (drawing_L 0))\<lparr>phase_L := POST_TURN_L\<rparr>\<rparr>)"
    by (simp only: run_app [of "[Ready, SelectPrompt 0]"] option.case)
  moreover have "history_L (gameState_L ((drawing_L 0)\<lparr>gameState_L := (gameState_L (drawing_L 0))
        \<lparr>phase_L := POST_TURN_L\<rparr>\<rparr>)) = []"
    by (simp add: example_defs)
  moreover have "tick (drawing 1)
     = Inr ((drawing 0)\<lparr>gameState := (gameState (drawing 0))
          \<lparr>history := [\<lparr>playerName = ''Alice'', word_h = ''Cat'', wasCorrect = False, winners = []\<rparr>],
           subPhase := Some POST_TURN\<rparr>\<rparr>)"
    by (simp add: tick_def at_index_def prompt_word_def example_defs)
  ultimately show ?thesis by blast
qed

lemma hintDisplay_nth:
  assumes "i < length (prompt_word (currentPrompt_L g))"
  shows "hintDisplay g ! i =
     (if prompt_word (currentPrompt_L g) ! i = CHR '' '' then Gap
      else if isRevealed_L g i then Revealed (toUpperCase (prompt_word (currentPrompt_L g) ! i))
      else Masked)"
  using assms by (simp add: hintDisplay_def nth_enumerate_eq)

lemma shown_L_iff:
  "shown_L g i \<longleftrightarrow>
     showLengthHint g \<and> i < length (prompt_word (currentPrompt_L g))
     \<and> prompt_word (currentPrompt_L g) ! i \<noteq> CHR '' '' \<and> isRevealed_L g i"
proof (cases "showLengthHint g \<and> i < length (prompt_word (currentPrompt_L g))")
  case True
  then have "length (hintDisplay g) = length (prompt_word (currentPrompt_L g))"
    by (simp add: hintDisplay_def)
  with True show ?thesis
    by (simp add: shown_L_def hint_L_def hintDisplay_nth)
next
  case False
  then show ?thesis
    by (auto simp: shown_L_def hint_L_def hintDisplay_def)
qed

lemma shown_iff:
  "shown g i \<longleftrightarrow>
     timer g \<le> 58 \<and> i < length (prompt_word (currentPrompt g))
     \<and> prompt_word (currentPrompt g) ! i \<noteq> CHR '' '' \<and> isRevealed g i"
  by (auto simp: shown_def hint_def Let_def nth_enumerate_eq split: if_splits)


text \<open>
  C5. The claim, for an easy prompt while drawing: the length mask is shown iff
  \<open>timer \<le> 30\<close>, the character at index 0 is revealed iff \<open>timer \<le> 20\<close>, the one at
  index \<open>length div 2\<close> iff \<open>timer \<le> 10\<close>, the last one never, and spaces never. The code
  differs. In \<^verbatim>\<open>part_000\<close> the letters are compared with \<^verbatim>\<open><\<close>: at 20 seconds the first
  letter of \<^verbatim>\<open>Cat\<close> is still hidden, and at 10 seconds its middle letter; the last letter
  of the two-letter word \<^verbatim>\<open>Ox\<close> is its middle letter and is revealed at 5 seconds.
  \<^verbatim>\<open>src/App.tsx\<close> has one table for all difficulties: at 40 seconds the mask of the easy
  word is on the screen, and at 20 seconds its last letter.
\<close>

theorem easy_hint_schedule_counterexample:
  "\<not> shown_L (gameState_L (drawing_L 20)) 0
   \<and> \<not> shown_L (gameState_L (drawing_L 10)) 1
   \<and> shown_L ((gameState_L (drawing_L 5))\<lparr>currentPrompt_L := Some ox_L\<rparr>) 1
   \<and> difficulty_of (gameState_L (drawing_L 20)) = easy_L
   \<and> difficulty_of ((gameState_L (drawing_L 5))\<lparr>currentPrompt_L := Some ox_L\<rparr>) = easy_L
   \<and> hint (gameState (drawing 40)) \<noteq> None
   \<and> shown (gameState (drawing 20)) 2
   \<and> currentPrompt (gameState (drawing 20)) = Some cat \<and> difficulty cat = easy"
  by (simp add: shown_L_iff shown_iff showLengthHint_def isRevealed_L_def isRevealed_def
      difficulty_of_def hint_def prompt_word_def example_defs)

text \<open>
  C5 as the code has it. In \<^verbatim>\<open>part_000\<close>, for an easy prompt (or none) and a timer that
  is not negative: the length mask is shown iff \<open>timer \<le> 30\<close>; a character at index 0 that
  is not a space is revealed whenever \<open>timer < 20\<close> and hidden whenever \<open>timer > 20\<close>; in a
  word of at least two characters the character at index \<open>length div 2\<close>, if not a space,
  is revealed whenever \<open>timer < 10\<close> and hidden whenever \<open>timer > 10\<close>; in a word of at
  least three characters the last character is never revealed; and a space is never
  revealed but rendered as a gap. In \<^verbatim>\<open>src/App.tsx\<close>, for every difficulty: the mask is
  shown iff \<open>timer \<le> 58\<close>, and a character that is not a space is revealed iff it is at
  index 0 and \<open>timer \<le> 50\<close>, or at index \<open>length div 2\<close> and \<open>timer \<le> 35\<close>, or the last
  one and \<open>timer \<le> 20\<close>; a space is never revealed there either.
\<close>

theorem easy_hint_schedule:
  "(difficulty_of g = easy_L \<longrightarrow> 0 \<le> timer_L g \<longrightarrow>
      (hint_L g \<noteq> None \<longleftrightarrow> timer_L g \<le> 30)
      \<and> (prompt_word (currentPrompt_L g) \<noteq> [] \<longrightarrow> prompt_word (currentPrompt_L g) ! 0 \<noteq> CHR '' '' \<longrightarrow>
           (timer_L g < 20 \<longrightarrow> shown_L g 0) \<and> (20 < timer_L g \<longrightarrow> \<not> shown_L g 0))
      \<and> (2 \<le> length (prompt_word (currentPrompt_L g)) \<longrightarrow>
           prompt_word (currentPrompt_L g) ! (length (prompt_word (currentPrompt_L g)) div 2) \<noteq> CHR '' '' \<longrightarrow>
           (timer_L g < 10 \<longrightarrow> shown_L g (length (prompt_word (currentPrompt_L g)) div 2))
           \<and> (10 < timer_L g \<longrightarrow> \<not> shown_L g (length (prompt_word (currentPrompt_L g)) div 2)))
      \<and> (3 \<le> length (prompt_word (currentPrompt_L g)) \<longrightarrow>
           \<not> shown_L g (length (prompt_word (currentPrompt_L g)) - 1))
      \<and> (\<forall>i < length (prompt_word (currentPrompt_L g)).
           prompt_word (currentPrompt_L g) ! i = CHR '' '' \<longrightarrow>
           \<not> shown_L g i \<and> hintDisplay g ! i = Gap))
   \<and> ((hint h \<noteq> None \<longleftrightarrow> timer h \<le> 58)
      \<and> (\<forall>i < length (prompt_word (currentPrompt h)).
           prompt_word (currentPrompt h) ! i \<noteq> CHR '' '' \<longrightarrow>
           (shown h i \<longleftrightarrow>
              (i = 0 \<and> timer h \<le> 50)
              \<or> (i = length (prompt_word (currentPrompt h)) div 2 \<and> timer h \<le> 35)
              \<or> (i + 1 = length (prompt_word (currentPrompt h)) \<and> timer h \<le> 20)))
      \<and> (\<forall>i < length (prompt_word (currentPrompt h)).
           prompt_word (currentPrompt h) ! i = CHR '' '' \<longrightarrow> \<not> shown h i))"
proof (intro conjI impI allI)
  assume e: "difficulty_of g = easy_L" and t: "0 \<le> timer_L g"
  let ?w = "prompt_word (currentPrompt_L g)"
  have rev: "isRevealed_L g i \<longleftrightarrow> (timer_L g < 20 \<and> i = 0) \<or> (timer_L g < 10 \<and> i = length ?w div 2)" for i
    using e t by (auto simp: isRevealed_L_def Let_def)
  have len: "showLengthHint g \<longleftrightarrow> timer_L g \<le> 30"
    using e by (simp add: showLengthHint_def)
  show "hint_L g \<noteq> None \<longleftrightarrow> timer_L g \<le> 30"
    using len by (simp add: hint_L_def)
  have first: "shown_L g 0 \<longleftrightarrow> timer_L g < 20"
    if "?w \<noteq> []" "?w ! 0 \<noteq> CHR '' ''"
    using that len by (auto simp: shown_L_iff rev)
  show "shown_L g 0" if "?w \<noteq> []" "?w ! 0 \<noteq> CHR '' ''" "timer_L g < 20"
    using first that by simp
  show "\<not> shown_L g 0" if "?w \<noteq> []" "?w ! 0 \<noteq> CHR '' ''" "20 < timer_L g"
    using first that by simp
  have mid: "shown_L g (length ?w div 2) \<longleftrightarrow> timer_L g < 10"
    if "2 \<le> length ?w" "?w ! (length ?w div 2) \<noteq> CHR '' ''"
  proof -
    from that(1) have "length ?w div 2 < length ?w" "length ?w div 2 \<noteq> 0" by auto
    with that(2) len show ?thesis by (auto simp: shown_L_iff rev)
  qed
  show "shown_L g (length ?w div 2)"
    if "2 \<le> length ?w" "?w ! (length ?w div 2) \<noteq> CHR '' ''" "timer_L g < 10"
    using mid that by simp
  show "\<not> shown_L g (length ?w div 2)"
    if "2 \<le> length ?w" "?w ! (length ?w div 2) \<noteq> CHR '' ''" "10 < timer_L g"
    using mid that by simp
  show "\<not> shown_L g (length ?w - 1)" if "3 \<le> length ?w"
  proof -
    from that have "length ?w - 1 \<noteq> 0" "length ?w - 1 \<noteq> length ?w div 2" by auto
    then show ?thesis by (simp add: shown_L_iff rev)
  qed
  fix i assume "i < length ?w" "?w ! i = CHR '' ''"
  then show "\<not> shown_L g i" "hintDisplay g ! i = Gap"
    by (simp_all add: shown_L_iff hintDisplay_nth)
next
  show "hint h \<noteq> None \<longleftrightarrow> timer h \<le> 58"
    by (simp add: hint_def)
  show "shown h i \<longleftrightarrow>
              (i = 0 \<and> timer h \<le> 50)
              \<or> (i = length (prompt_word (currentPrompt h)) div 2 \<and> timer h \<le> 35)
              \<or> (i + 1 = length (prompt_word (currentPrompt h)) \<and> timer h \<le> 20)"
    if "i < length (prompt_word (currentPrompt h))"
      "prompt_word (currentPrompt h) ! i \<noteq> CHR '' ''" for i
    using that by (auto simp: shown_iff isRevealed_def Let_def)
  show "\<not> shown h i"
    if "i < length (prompt_word (currentPrompt h))"
      "prompt_word (currentPrompt h) ! i = CHR '' ''" for i
    using that by (simp add: shown_iff)
qed


text \<open>
  \<^verbatim>\<open>Ice Cream\<close>, an easy prompt with a space at index 3, the middle at index 4 and the
  last letter at index 8: at 5 and at 25 seconds in \<^verbatim>\<open>part_000\<close>, at 30 seconds in
  \<^verbatim>\<open>src/App.tsx\<close>.
\<close>

theorem easy_hint_schedule_witness:
  "difficulty_of ((gameState_L (drawing_L 5))\<lparr>currentPrompt_L := Some ice_cream_L\<rparr>) = easy_L
   \<and> 0 \<le> timer_L ((gameState_L (drawing_L 5))\<lparr>currentPrompt_L := Some ice_cream_L\<rparr>)
   \<and> prompt_word (currentPrompt_L ((gameState_L (drawing_L 5))\<lparr>currentPrompt_L := Some ice_cream_L\<rparr>))
       = ''Ice Cream''
   \<and> hint_L ((gameState_L (drawing_L 5))\<lparr>currentPrompt_L := Some ice_cream_L\<rparr>) \<noteq> None
   \<and> shown_L ((gameState_L (drawing_L 5))\<lparr>currentPrompt_L := Some ice_cream_L\<rparr>) 0
   \<and> shown_L ((gameState_L (drawing_L 5))\<lparr>currentPrompt_L := Some ice_cream_L\<rparr>) 4
   \<and> \<not> shown_L ((gameState_L (drawing_L 5))\<lparr>currentPrompt_L := Some ice_cream_L\<rparr>) 8
   \<and> \<not> shown_L ((gameState_L (drawing_L 5))\<lparr>currentPrompt_L := Some ice_cream_L\<rparr>) 3
   \<and> hintDisplay ((gameState_L (drawing_L 5))\<lparr>currentPrompt_L := Some ice_cream_L\<rparr>) ! 3 = Gap
   \<and> 20 < timer_L ((gameState_L (drawing_L 25))\<lparr>currentPrompt_L := Some ice_cream_L\<rparr>)
   \<and> \<not> shown_L ((gameState_L (drawing_L 25))\<lparr>currentPrompt_L := Some ice_cream_L\<rparr>) 0
   \<and> \<not> shown_L ((gameState_L (drawing_L 25))\<lparr>currentPrompt_L := Some ice_cream_L\<rparr>) 4
   \<and> prompt_word (currentPrompt ((gameState (drawing 30))\<lparr>currentPrompt := Some ice_cream\<rparr>))
       = ''Ice Cream''
   \<and> hint ((gameState (drawing 30))\<lparr>currentPrompt := Some ice_cream\<rparr>) \<noteq> None
   \<and> shown ((gameState (drawing 30))\<lparr>currentPrompt := Some ice_cream\<rparr>) 0
   \<and> shown ((gameState (drawing 30))\<lparr>currentPrompt := Some ice_cream\<rparr>) 4
   \<and> \<not> shown ((gameState (drawing 30))\<lparr>currentPrompt := Some ice_cream\<rparr>) 8
   \<and> \<not> shown ((gameState (drawing 30))\<lparr>currentPrompt := Some ice_cream\<rparr>) 3"
proof -
  let ?g = "(gameState_L (drawing_L 5))\<lparr>currentPrompt_L := Some ice_cream_L\<rparr>"
  let ?h = "(gameState (drawing 30))\<lparr>currentPrompt := Some ice_cream\<rparr>"
  have w: "prompt_word (currentPrompt_L ?g) = ''Ice Cream''"
    "prompt_word (currentPrompt ?h) = ''Ice Cream''"
    by (simp_all add: prompt_word_def example_defs)
  have g: "difficulty_of ?g = easy_L" "0 \<le> timer_L ?g" "timer_L ?g = 5" "timer ?h = 30"
    by (simp_all add: difficulty_of_def example_defs)
  note L = easy_hint_schedule [of ?g ?h, THEN conjunct1, rule_format, OF g(1,2)]
  note R = easy_hint_schedule [of ?g ?h, THEN conjunct2]
  note L0 = L [THEN conjunct2, THEN conjunct1, rule_format, THEN conjunct1, rule_format]
  note L1 = L [THEN conjunct2, THEN conjunct2, THEN conjunct1, rule_format, THEN conjunct1,
    rule_format]
  note L2 = L [THEN conjunct2, THEN conjunct2, THEN conjunct2, THEN conjunct1, rule_format]
  note L3 = L [THEN conjunct2, THEN conjunct2, THEN conjunct2, THEN conjunct2, rule_format]
  note R1 = R [THEN conjunct2, THEN conjunct1, rule_format]
  note R2 = R [THEN conjunct2, THEN conjunct2, rule_format]
  have 1: "hint_L ?g \<noteq> None"
    using L [THEN conjunct1] g(3) by simp
  have 2: "shown_L ?g 0"
    by (rule L0) (simp_all add: prompt_word_def example_defs)
  have m: "length (prompt_word (currentPrompt_L ?g)) div 2 = 4"
    "length (prompt_word (currentPrompt_L ?g)) - 1 = 8"
    by (simp_all add: prompt_word_def example_defs)
  have 3: "shown_L ?g 4"
    by (rule L1 [unfolded m]) (simp_all add: prompt_word_def example_defs)
  have 4: "\<not> shown_L ?g 8"
    by (rule L2 [unfolded m]) (simp add: prompt_word_def example_defs)
  have 5: "\<not> shown_L ?g 3 \<and> hintDisplay ?g ! 3 = Gap"
    by (rule L3) (simp_all add: prompt_word_def example_defs)
  let ?g' = "(gameState_L (drawing_L 25))\<lparr>currentPrompt_L := Some ice_cream_L\<rparr>"
  have g': "difficulty_of ?g' = easy_L" "0 \<le> timer_L ?g'" "20 < timer_L ?g'"
    by (simp_all add: difficulty_of_def example_defs)
  note L' = easy_hint_schedule [of ?g' ?h, THEN conjunct1, rule_format, OF g'(1,2)]
  note L0' = L' [THEN conjunct2, THEN conjunct1, rule_format, THEN conjunct2, rule_format]
  note L1' = L' [THEN conjunct2, THEN conjunct2, THEN conjunct1, rule_format, THEN conjunct2,
    rule_format]
  have m': "length (prompt_word (currentPrompt_L ?g')) div 2 = 4"
    by (simp add: prompt_word_def example_defs)
  have 10: "\<not> shown_L ?g' 0"
    by (rule L0') (simp_all add: prompt_word_def example_defs)
  have 11: "\<not> shown_L ?g' 4"
    by (rule L1' [unfolded m']) (simp_all add: prompt_word_def example_defs)
  have 6: "hint ?h \<noteq> None"
    using R [THEN conjunct1] g(4) by simp
  have 7: "shown ?h 0"
    by (rule R1 [THEN iffD2]) (simp_all add: prompt_word_def example_defs)
  have 8: "shown ?h 4"
    by (rule R1 [THEN iffD2]) (simp_all add: prompt_word_def example_defs)
  have 9: "\<not> shown ?h 8"
    using R1 [of 8] by (simp add: prompt_word_def example_defs)
  have 12: "\<not> shown ?h 3"
    by (rule R2) (simp_all add: prompt_word_def example_defs)
  from 1 2 3 4 5 6 7 8 9 10 11 12 w g(1,2) g'(3) show ?thesis by blast
qed

end
